theory Spec2Isabelle
  imports Complex_Main "HOL-Library.Word" "HOL-Library.Signed_Division"
begin

section \<open>The SMIV SIMD convolution datapath and the layer scheduler\<close>

text \<open>
  The development follows three source files: the vectorised convolution kernel
  (\<^verbatim>\<open>core/smiv/convolution_simd.c\<close>), the layer dispatch and the forward pass
  (\<^verbatim>\<open>arch/smiv.c\<close>) and the operator-graph scheduler (\<^verbatim>\<open>core/scheduler.h\<close>).

  Conventions of the embedding.
  \<^item> A C \<^verbatim>\<open>float\<close> is a \<^typ>\<open>real\<close>: rounding, infinities and NaN are outside the
    model, so every statement about values is a statement about the exact arithmetic
    the code performs on finite numbers.
  \<^item> A C \<^verbatim>\<open>int\<close> is an \<^typ>\<open>int\<close> (signed overflow is undefined in C and is not
    modelled); a C \<^verbatim>\<open>unsigned\<close> is a \<^typ>\<open>32 word\<close>, so unsigned arithmetic wraps.
  \<^item> \<^verbatim>\<open>v8fp_t\<close> is a vector of eight floats, a list of length 8; a shift register
    \<^verbatim>\<open>v8fp_t reg[SR_SIZE]\<close> is a list of such vectors.
  \<^item> The \<^verbatim>\<open>float*\<close> buffers live in one store, a function from addresses (counted in
    floats) to values, so that aliasing between buffers is visible.
\<close>

subsection \<open>Constants of the datapath\<close>

text \<open>
  Modelled from the spec: the macros \<^verbatim>\<open>VECTOR_SIZE\<close>, \<^verbatim>\<open>SHIFT_REG_SIZE\<close> and
  \<^verbatim>\<open>DATAPATH_WIDTH\<close> are defined in a header that is not part of the sources at hand.
  The vector type \<^verbatim>\<open>v8fp_t\<close> and its eight-element initialisers fix the vector width
  at 8; every shift register is declared with two vector units, which fixes
  \<^verbatim>\<open>SHIFT_REG_SIZE\<close> at 16; the weights of both pipes share one vector register
  (low half for pipe 0, high half for pipe 1), which fixes the datapath width at 4.
\<close>

definition VECTOR_SIZE :: nat where
  "VECTOR_SIZE = 8"

definition SHIFT_REG_SIZE :: nat where
  "SHIFT_REG_SIZE = 16"

definition DATAPATH_WIDTH :: nat where
  "DATAPATH_WIDTH = 4"

definition SR_SIZE :: nat where
  "SR_SIZE = SHIFT_REG_SIZE div VECTOR_SIZE"

type_synonym v8fp_t = "real list"

type_synonym shift_reg_t = "v8fp_t list"

text \<open>The literal \<^verbatim>\<open>(v8fp_t){ 0, 0, 0, 0, 0, 0, 0, 0 }\<close>.\<close>

definition v8fp_zero :: v8fp_t where
  "v8fp_zero = replicate VECTOR_SIZE 0"

text \<open>The shapes the C types impose: eight lanes, \<^verbatim>\<open>SR_SIZE\<close> vector units.\<close>

definition is_v8fp :: "v8fp_t \<Rightarrow> bool" where
  "is_v8fp v = (length v = VECTOR_SIZE)"

definition is_shift_reg :: "shift_reg_t \<Rightarrow> bool" where
  "is_shift_reg reg = (length reg = SR_SIZE \<and> list_all is_v8fp reg)"

text \<open>A shift register seen as one flat array of \<^verbatim>\<open>SHIFT_REG_SIZE\<close> lanes.\<close>

definition lanes :: "shift_reg_t \<Rightarrow> real list" where
  "lanes reg = concat reg"

subsection \<open>Shifting the shift registers\<close>

text \<open>
  One iteration of the loop \<^verbatim>\<open>shift_reg_lshift\<close>: the unsigned sum \<^verbatim>\<open>sr + shamt\<close>
  wraps, both index pairs are computed, and the destination lane is written in place.
\<close>

definition lshift_body :: "32 word \<Rightarrow> nat \<Rightarrow> shift_reg_t \<Rightarrow> shift_reg_t" where
  "lshift_body shamt sr shift_reg =
     (let shidx = unat (word_of_nat sr + shamt :: 32 word);
          sr0 = sr div VECTOR_SIZE;
          sr1 = sr mod VECTOR_SIZE;
          sr2 = shidx div VECTOR_SIZE;
          sr3 = shidx mod VECTOR_SIZE
      in if shidx < SHIFT_REG_SIZE
         then shift_reg[sr0 := (shift_reg ! sr0)[sr1 := shift_reg ! sr2 ! sr3]]
         else shift_reg[sr0 := (shift_reg ! sr0)[sr1 := 0]])"

text \<open>The source lane index \<^verbatim>\<open>shidx\<close> of iteration \<^verbatim>\<open>sr\<close>, as a function of its own.\<close>

definition shidx_of :: "32 word \<Rightarrow> nat \<Rightarrow> nat" where
  "shidx_of shamt sr = unat (word_of_nat sr + shamt :: 32 word)"

definition shift_reg_simd_lshift :: "shift_reg_t \<Rightarrow> 32 word \<Rightarrow> shift_reg_t" where
  "shift_reg_simd_lshift shift_reg shamt =
     fold (lshift_body shamt) [0..<SHIFT_REG_SIZE] shift_reg"

text \<open>
  One iteration of the loop \<^verbatim>\<open>shift_regs_lshift\<close>, which moves the same lane of both
  registers in one step.
\<close>

definition lshift2_body ::
  "32 word \<Rightarrow> nat \<Rightarrow> shift_reg_t \<times> shift_reg_t \<Rightarrow> shift_reg_t \<times> shift_reg_t" where
  "lshift2_body shamt sr regs =
     (let shift_reg0 = fst regs;
          shift_reg1 = snd regs;
          shidx = unat (word_of_nat sr + shamt :: 32 word);
          sr0 = sr div VECTOR_SIZE;
          sr1 = sr mod VECTOR_SIZE;
          sr2 = shidx div VECTOR_SIZE;
          sr3 = shidx mod VECTOR_SIZE
      in if shidx < SHIFT_REG_SIZE
         then (shift_reg0[sr0 := (shift_reg0 ! sr0)[sr1 := shift_reg0 ! sr2 ! sr3]],
               shift_reg1[sr0 := (shift_reg1 ! sr0)[sr1 := shift_reg1 ! sr2 ! sr3]])
         else (shift_reg0[sr0 := (shift_reg0 ! sr0)[sr1 := 0]],
               shift_reg1[sr0 := (shift_reg1 ! sr0)[sr1 := 0]]))"

definition shift_regs_simd_lshift ::
  "shift_reg_t \<Rightarrow> shift_reg_t \<Rightarrow> 32 word \<Rightarrow> shift_reg_t \<times> shift_reg_t" where
  "shift_regs_simd_lshift shift_reg0 shift_reg1 shamt =
     fold (lshift2_body shamt) [0..<SHIFT_REG_SIZE] (shift_reg0, shift_reg1)"

subsection \<open>Merging the partial sums\<close>

text \<open>
  \<^verbatim>\<open>merge_psums_simd_fxp\<close>: the result starts as the zero vector and each loop adds
  into it with \<^verbatim>\<open>+=\<close>.
\<close>

definition merge_double_body :: "v8fp_t \<Rightarrow> v8fp_t \<Rightarrow> nat \<Rightarrow> v8fp_t \<Rightarrow> v8fp_t" where
  "merge_double_body psums_0 psums_1 i result_tmp =
     (let r1 = result_tmp[2 * i := result_tmp ! (2 * i) + psums_0 ! i]
      in r1[2 * i + 1 := r1 ! (2 * i + 1) + psums_1 ! i])"

definition merge_single_body :: "v8fp_t \<Rightarrow> v8fp_t \<Rightarrow> nat \<Rightarrow> v8fp_t \<Rightarrow> v8fp_t" where
  "merge_single_body psums_0 psums_1 i result_tmp =
     result_tmp[i := result_tmp ! i + (psums_0 ! i + psums_1 ! i)]"

definition merge_psums_simd_fxp :: "v8fp_t \<Rightarrow> v8fp_t \<Rightarrow> bool \<Rightarrow> v8fp_t" where
  "merge_psums_simd_fxp psums_0 psums_1 double_tp =
     (if double_tp
      then fold (merge_double_body psums_0 psums_1) [0..<VECTOR_SIZE div 2] v8fp_zero
      else fold (merge_single_body psums_0 psums_1) [0..<VECTOR_SIZE] v8fp_zero)"


subsection \<open>The multiply-accumulate datapath\<close>

text \<open>
  The inner loop \<^verbatim>\<open>conv2d_dp_core\<close>: lane \<^verbatim>\<open>j\<close> of the low half of the weights
  against pipe 0, lane \<^verbatim>\<open>j + DATAPATH_WIDTH\<close> against pipe 1, both read from vector
  unit 0 of the shift registers. The accumulators are the pair
  \<^verbatim>\<open>(accum_result_0, accum_result_1)\<close>.
\<close>

definition conv2d_dp_core ::
  "v8fp_t \<Rightarrow> shift_reg_t \<Rightarrow> shift_reg_t \<Rightarrow> nat \<Rightarrow> real \<times> real \<Rightarrow> real \<times> real" where
  "conv2d_dp_core weights_buffer pipe0_shift_reg pipe1_shift_reg j acc =
     (fst acc + weights_buffer ! j * pipe0_shift_reg ! 0 ! j,
      snd acc + weights_buffer ! (j + DATAPATH_WIDTH) * pipe1_shift_reg ! 0 ! j)"

text \<open>
  The state of the outer loop: the two partial-sum vectors and the two shift registers,
  all of which the C function updates in place.
\<close>

record macc_state =
  psums_tmp_0 :: v8fp_t
  psums_tmp_1 :: v8fp_t
  pipe0_reg :: shift_reg_t
  pipe1_reg :: shift_reg_t

definition conv2d_dp_outer ::
  "v8fp_t \<Rightarrow> 32 word \<Rightarrow> 32 word \<Rightarrow> nat \<Rightarrow> macc_state \<Rightarrow> macc_state" where
  "conv2d_dp_outer weights_buffer dp_shamt dp1_iters psum_reg st =
     (let acc = fold (conv2d_dp_core weights_buffer (pipe0_reg st) (pipe1_reg st))
                  [0..<DATAPATH_WIDTH]
                  (psums_tmp_0 st ! psum_reg, psums_tmp_1 st ! psum_reg);
          p0 = (psums_tmp_0 st)[psum_reg := fst acc];
          p1 = (if psum_reg < unat dp1_iters
                then (psums_tmp_1 st)[psum_reg := snd acc]
                else psums_tmp_1 st);
          regs = shift_regs_simd_lshift (pipe0_reg st) (pipe1_reg st) dp_shamt
      in \<lparr>psums_tmp_0 = p0, psums_tmp_1 = p1,
          pipe0_reg = fst regs, pipe1_reg = snd regs\<rparr>)"

definition conv_macc_datapath_simd_fxp ::
  "v8fp_t \<Rightarrow> shift_reg_t \<Rightarrow> shift_reg_t \<Rightarrow> 32 word \<Rightarrow> 32 word \<Rightarrow> 32 word \<Rightarrow>
   v8fp_t \<Rightarrow> v8fp_t \<Rightarrow> macc_state" where
  "conv_macc_datapath_simd_fxp weights_buffer pipe0_shift_reg pipe1_shift_reg
       dp_shamt dp0_iters dp1_iters psums_0 psums_1 =
     fold (conv2d_dp_outer weights_buffer dp_shamt dp1_iters) [0..<unat dp0_iters]
       \<lparr>psums_tmp_0 = psums_0, psums_tmp_1 = psums_1,
        pipe0_reg = pipe0_shift_reg, pipe1_reg = pipe1_shift_reg\<rparr>"

text \<open>
  The dot product of \<^verbatim>\<open>DATAPATH_WIDTH\<close> weights, starting at lane \<open>off\<close> of the weights
  buffer, with the first lanes of a shift register; and the register an iteration sees,
  which is the initial one after that many shifts.
\<close>

definition dot_product :: "v8fp_t \<Rightarrow> nat \<Rightarrow> shift_reg_t \<Rightarrow> real" where
  "dot_product weights_buffer off reg =
     (\<Sum>j = 0..<DATAPATH_WIDTH. weights_buffer ! (j + off) * reg ! 0 ! j)"

definition current_reg :: "32 word \<Rightarrow> nat \<Rightarrow> shift_reg_t \<Rightarrow> shift_reg_t" where
  "current_reg shamt i reg = ((\<lambda>r. shift_reg_simd_lshift r shamt) ^^ i) reg"


subsection \<open>Layer descriptors and buffers\<close>

text \<open>
  The fields of \<^verbatim>\<open>layer_t\<close> that the three files read or write. The struct is declared
  in a header outside the sources at hand; the field names are the ones the code uses.
\<close>

record dims_t =
  rows :: int
  cols :: int
  height :: int
  align_pad :: int

record layer_t =
  inputs :: dims_t
  weights :: dims_t
  outputs :: dims_t
  field_size :: int
  field_stride :: int
  c_padding :: int
  result_in_temp :: bool

text \<open>
  A \<^verbatim>\<open>float*\<close> is an address counted in floats; the store maps every address to the
  float it holds.
\<close>

type_synonym ptr = int

type_synonym heap = "ptr \<Rightarrow> real"

text \<open>
  Modelled from the spec: the helper macros of \<^verbatim>\<open>utility/utility.h\<close>, a header outside
  the sources at hand. \<^verbatim>\<open>FRAC_CEIL(A, B)\<close> is the number of \<open>B\<close>-sized fetches that cover
  \<open>A\<close> elements; \<^verbatim>\<open>min\<close> is the two-way minimum;
  \<^verbatim>\<open>VEC_ARRAY_4D(v8fp_t, x, p, D1, D2, D3)\<close> views the flat buffer \<open>p\<close> as a row-major
  array \<^verbatim>\<open>x[][D1][D2][D3 / VECTOR_SIZE]\<close> of vectors and \<^verbatim>\<open>VEC_ARRAY_3D\<close> does the same
  with one dimension less, so that a padded row of \<open>D3\<close> floats is \<open>D3 / VECTOR_SIZE\<close>
  vector registers. Integer division is C's, truncating towards zero.
\<close>

definition FRAC_CEIL :: "int \<Rightarrow> int \<Rightarrow> int" where
  "FRAC_CEIL A B = A sdiv B + (if A smod B \<noteq> 0 then 1 else 0)"

definition c_min :: "'a::linorder \<Rightarrow> 'a \<Rightarrow> 'a" where
  "c_min a b = (if a < b then a else b)"

definition vec_index_4d :: "int \<Rightarrow> int \<Rightarrow> int \<Rightarrow> int \<Rightarrow> int \<Rightarrow> int \<Rightarrow> int \<Rightarrow> int" where
  "vec_index_4d D1 D2 D3 i j k l =
     ((i * D1 + j) * D2 + k) * (D3 sdiv int VECTOR_SIZE) + l"

definition vec_index_3d :: "int \<Rightarrow> int \<Rightarrow> int \<Rightarrow> int \<Rightarrow> int \<Rightarrow> int" where
  "vec_index_3d D1 D2 i j k = (i * D1 + j) * (D2 sdiv int VECTOR_SIZE) + k"

text \<open>Reading the vector register number \<open>v\<close> of a buffer, and the address of one lane.\<close>

definition lane_addr :: "ptr \<Rightarrow> int \<Rightarrow> nat \<Rightarrow> ptr" where
  "lane_addr p v l = p + int VECTOR_SIZE * v + int l"

definition load_v8fp :: "heap \<Rightarrow> ptr \<Rightarrow> int \<Rightarrow> v8fp_t" where
  "load_v8fp h p v = map (\<lambda>l. h (lane_addr p v l)) [0..<VECTOR_SIZE]"

subsection \<open>The convolution kernel driver: schedule constants\<close>

text \<open>
  The \<^verbatim>\<open>const\<close> locals that \<^verbatim>\<open>convolution2d_smiv_1kernel_1channel_simd_fxp\<close> computes
  once, before its loops, each as a function of the layer descriptor.
\<close>

definition a_height :: "layer_t \<Rightarrow> int" where
  "a_height L = rows (inputs L)"

definition a_width :: "layer_t \<Rightarrow> int" where
  "a_width L = cols (inputs L)"

definition a_padded_width :: "layer_t \<Rightarrow> int" where
  "a_padded_width L = a_width L + align_pad (inputs L)"

definition result_height :: "layer_t \<Rightarrow> int" where
  "result_height L = rows (outputs L)"

definition result_width :: "layer_t \<Rightarrow> int" where
  "result_width L = cols (outputs L)"

definition result_padded_width :: "layer_t \<Rightarrow> int" where
  "result_padded_width L = result_width L + align_pad (outputs L)"

definition k_width :: "layer_t \<Rightarrow> int" where
  "k_width L = cols (weights L)"

definition k_height :: "layer_t \<Rightarrow> int" where
  "k_height L = height (inputs L)"

definition k_stride :: "layer_t \<Rightarrow> int" where
  "k_stride L = field_stride L"

definition k_padded_width :: "layer_t \<Rightarrow> int" where
  "k_padded_width L = k_width L + align_pad (weights L)"

definition double_tp :: "layer_t \<Rightarrow> bool" where
  "double_tp L = (k_width L < int DATAPATH_WIDTH)"

definition init_shamt :: "layer_t \<Rightarrow> 32 word" where
  "init_shamt L = (if double_tp L then word_of_int (k_stride L) else word_of_nat DATAPATH_WIDTH)"

definition dp_shamt :: "layer_t \<Rightarrow> 32 word" where
  "dp_shamt L = (if double_tp L then word_of_int (k_stride L * 2) else word_of_int (k_stride L))"

definition input_fetches_per_row :: "layer_t \<Rightarrow> 32 word" where
  "input_fetches_per_row L = word_of_int (FRAC_CEIL (a_width L) (int VECTOR_SIZE))"

definition last_input_pixel_start_col :: "layer_t \<Rightarrow> 32 word" where
  "last_input_pixel_start_col L = word_of_int (result_width L * k_stride L)"

definition has_boundary_case :: "layer_t \<Rightarrow> bool" where
  "has_boundary_case L =
     (last_input_pixel_start_col L > (input_fetches_per_row L - 1) * word_of_nat VECTOR_SIZE)"

definition max_psums_per_act :: "layer_t \<Rightarrow> 32 word" where
  "max_psums_per_act L =
     (if k_stride L = 1 then
        (if double_tp L then word_of_nat DATAPATH_WIDTH else word_of_nat (DATAPATH_WIDTH * 2))
      else if k_stride L = 2 then
        (if double_tp L then word_of_nat (DATAPATH_WIDTH div 2) else word_of_nat DATAPATH_WIDTH)
      else if k_stride L = 4 then word_of_nat (DATAPATH_WIDTH div 2)
      else 0)"

definition end_row :: "layer_t \<Rightarrow> int" where
  "end_row L = a_height L - k_width L + 1"

definition end_col :: "layer_t \<Rightarrow> int" where
  "end_col L = sint (if has_boundary_case L then input_fetches_per_row L
                     else input_fetches_per_row L - 1)"

definition end_kern :: "layer_t \<Rightarrow> int" where
  "end_kern L = k_width L"

definition end_col_marker :: "layer_t \<Rightarrow> int" where
  "end_col_marker L = sint (input_fetches_per_row L - 1)"


subsection \<open>The convolution kernel driver: loops\<close>

text \<open>
  The schedule of one column group: how many output pixels each pipe produces and how
  many lanes are committed. \<^verbatim>\<open>remaining_cols\<close> is unsigned, so the difference wraps.
\<close>

record schedule =
  dp0_iters :: "32 word"
  dp1_iters :: "32 word"
  total_outpx :: "32 word"

definition compute_schedule :: "layer_t \<Rightarrow> int \<Rightarrow> schedule" where
  "compute_schedule L out_col =
     (let remaining_cols = (word_of_int (result_width L - out_col) :: 32 word)
      in if double_tp L then
           (let remaining_per_dp = remaining_cols div 2;
                remainder = remaining_cols mod 2;
                dp0 = c_min (max_psums_per_act L) (remaining_per_dp + remainder);
                dp1 = c_min (max_psums_per_act L) remaining_per_dp
            in \<lparr>dp0_iters = dp0, dp1_iters = dp1, total_outpx = dp0 + dp1\<rparr>)
         else
           (let remaining_per_dp = remaining_cols;
                dp0 = c_min (max_psums_per_act L) remaining_per_dp;
                dp1 = c_min (max_psums_per_act L) remaining_per_dp
            in \<lparr>dp0_iters = dp0, dp1_iters = dp1, total_outpx = dp0\<rparr>))"

text \<open>
  Loading the activations of input row \<open>row\<close> at fetch column \<open>in_col\<close>. Both pipes
  receive the same two vectors, so one register is built and used for both. The load of
  position 1 is skipped in the boundary case at the last fetch column, where the register
  keeps its zero initialiser.
\<close>

definition load_activations ::
  "layer_t \<Rightarrow> heap \<Rightarrow> ptr \<Rightarrow> int \<Rightarrow> int \<Rightarrow> int \<Rightarrow> int \<Rightarrow> shift_reg_t" where
  "load_activations L h a img chan row in_col =
     (let reg = [v8fp_zero, v8fp_zero];
          act_temp = load_v8fp h a
            (vec_index_4d (k_height L) (a_height L) (a_padded_width L) img chan row in_col);
          reg = reg[0 := act_temp]
      in if \<not> (has_boundary_case L \<and> in_col = end_col_marker L)
         then reg[1 := load_v8fp h a
                (vec_index_4d (k_height L) (a_height L) (a_padded_width L) img chan row
                   (in_col + 1))]
         else reg)"

text \<open>
  Loading one row of weights into the weights buffer, which starts as the zero vector:
  in double-throughput mode the row is copied into both halves.
\<close>

definition load_weights :: "layer_t \<Rightarrow> heap \<Rightarrow> ptr \<Rightarrow> int \<Rightarrow> int \<Rightarrow> int \<Rightarrow> v8fp_t" where
  "load_weights L h kernels kern chan kern_row =
     (let wgt_temp = load_v8fp h kernels
            (vec_index_4d (k_height L) (k_width L) (k_padded_width L) kern chan kern_row 0)
      in if double_tp L
         then fold (\<lambda>w wb. (wb[w := wgt_temp ! w])[DATAPATH_WIDTH + w := wgt_temp ! w])
                [0..<nat (k_width L)] v8fp_zero
         else fold (\<lambda>w wb. wb[w := wgt_temp ! w])
                [0..<nat (c_min (k_width L) (int VECTOR_SIZE))] v8fp_zero)"

text \<open>
  One iteration of \<^verbatim>\<open>conv2d_kern_row\<close>: fresh registers, the initial shift of pipe 1,
  and the datapath, which leaves its sums in \<^verbatim>\<open>psums_0\<close> and \<^verbatim>\<open>psums_1\<close>.
\<close>

definition conv2d_kern_row ::
  "layer_t \<Rightarrow> heap \<Rightarrow> ptr \<Rightarrow> ptr \<Rightarrow> int \<Rightarrow> int \<Rightarrow> int \<Rightarrow> int \<Rightarrow> int \<Rightarrow> schedule \<Rightarrow>
   nat \<Rightarrow> v8fp_t \<times> v8fp_t \<Rightarrow> v8fp_t \<times> v8fp_t" where
  "conv2d_kern_row L h a kernels img kern chan in_row in_col sched kern_row psums =
     (let pipe0_shift_reg = load_activations L h a img chan (in_row + int kern_row) in_col;
          pipe1_shift_reg = load_activations L h a img chan (in_row + int kern_row) in_col;
          weights_buffer = load_weights L h kernels kern chan (int kern_row);
          pipe1_shift_reg = shift_reg_simd_lshift pipe1_shift_reg (init_shamt L);
          st = conv_macc_datapath_simd_fxp weights_buffer pipe0_shift_reg pipe1_shift_reg
                 (dp_shamt L) (dp0_iters sched) (dp1_iters sched) (fst psums) (snd psums)
      in (psums_tmp_0 st, psums_tmp_1 st))"

text \<open>One iteration of \<^verbatim>\<open>conv2d_commit\<close>: lane \<open>j\<close> of the merged sums goes to the store.\<close>

definition conv2d_commit ::
  "layer_t \<Rightarrow> ptr \<Rightarrow> int \<Rightarrow> int \<Rightarrow> int \<Rightarrow> v8fp_t \<Rightarrow> nat \<Rightarrow> heap \<Rightarrow> heap" where
  "conv2d_commit L result chan out_row out_col final_psums j h =
     h(lane_addr result
         (vec_index_3d (result_height L) (result_padded_width L) chan out_row
            (out_col sdiv int VECTOR_SIZE)) j
       := final_psums ! j)"

text \<open>
  One iteration of \<^verbatim>\<open>conv2d_col\<close>. The loop state is \<^verbatim>\<open>out_col\<close> and the store.
  \<^verbatim>\<open>out_col += total_outpx\<close> adds an unsigned to an int: the sum is formed in unsigned
  arithmetic and converted back.
\<close>

definition conv2d_col ::
  "layer_t \<Rightarrow> ptr \<Rightarrow> ptr \<Rightarrow> int \<Rightarrow> int \<Rightarrow> int \<Rightarrow> ptr \<Rightarrow> int \<Rightarrow> int \<Rightarrow> nat \<Rightarrow>
   int \<times> heap \<Rightarrow> int \<times> heap" where
  "conv2d_col L a kernels img kern chan result in_row out_row in_col st =
     (let out_col = fst st;
          h = snd st;
          sched = compute_schedule L out_col;
          psums = fold (conv2d_kern_row L h a kernels img kern chan in_row (int in_col) sched)
                    [0..<nat (end_kern L)] (v8fp_zero, v8fp_zero);
          final_psums = merge_psums_simd_fxp (fst psums) (snd psums) (double_tp L);
          h = fold (conv2d_commit L result chan out_row out_col final_psums)
                [0..<unat (total_outpx sched)] h;
          out_col = sint (word_of_int out_col + total_outpx sched :: 32 word)
      in (if out_col \<ge> result_width L then 0 else out_col, h))"

text \<open>
  The loop \<^verbatim>\<open>conv2d_row\<close> steps \<^verbatim>\<open>in_row\<close> by the stride, which the code never checks
  to be positive: the loop need not terminate, and \<open>None\<close> stands for a call that never
  returns.
\<close>

partial_function (option) conv2d_row ::
  "layer_t \<Rightarrow> ptr \<Rightarrow> ptr \<Rightarrow> int \<Rightarrow> int \<Rightarrow> int \<Rightarrow> ptr \<Rightarrow> int \<Rightarrow> int \<Rightarrow> heap \<Rightarrow> heap option" where
  "conv2d_row L a kernels img kern chan result in_row out_row h =
     (if in_row < end_row L
      then conv2d_row L a kernels img kern chan result (in_row + k_stride L) (out_row + 1)
             (snd (fold (conv2d_col L a kernels img kern chan result in_row out_row)
                     [0..<nat (end_col L)] (0, h)))
      else Some h)"

definition convolution2d_smiv_1kernel_1channel_simd_fxp ::
  "ptr \<Rightarrow> ptr \<Rightarrow> int \<Rightarrow> int \<Rightarrow> int \<Rightarrow> layer_t \<Rightarrow> ptr \<Rightarrow> heap \<Rightarrow> heap option" where
  "convolution2d_smiv_1kernel_1channel_simd_fxp a kernels img kern chan curr_layer result h =
     conv2d_row curr_layer a kernels img kern chan result 0 0 h"


subsection \<open>Layer dispatch\<close>

text \<open>
  \<^verbatim>\<open>arch/smiv.c\<close> calls functions that are defined elsewhere: the zero-padding copy, the
  DMA transfers and the convolution kernel entry point. They are parameters of the model,
  collected in one record; each is a transformer of the memory state \<open>'s\<close>, about which
  nothing is assumed.

  Modelled from the spec: the macros \<^verbatim>\<open>MAP_ARRAY\<close> and \<^verbatim>\<open>INVOKE_KERNEL\<close> come from a
  header outside the sources at hand. \<^verbatim>\<open>MAP_ARRAY\<close> registers a buffer with the
  accelerator and does not change memory; \<^verbatim>\<open>INVOKE_KERNEL(hw, f, args)\<close> calls
  \<^verbatim>\<open>f(args)\<close>.
\<close>

record 's externs =
  copy_zeropad :: "ptr \<Rightarrow> layer_t \<Rightarrow> int \<Rightarrow> ptr \<Rightarrow> 's \<Rightarrow> 's"
  grab_matrix_dma :: "ptr \<Rightarrow> int \<Rightarrow> layer_t list \<Rightarrow> 's \<Rightarrow> 's"
  grab_input_activations_dma :: "ptr \<Rightarrow> int \<Rightarrow> layer_t list \<Rightarrow> 's \<Rightarrow> 's"
  convolution2d_smiv :: "ptr \<Rightarrow> ptr \<Rightarrow> layer_t \<Rightarrow> ptr \<Rightarrow> 's \<Rightarrow> 's"
  store_output_activations_dma :: "ptr \<Rightarrow> int \<Rightarrow> layer_t list \<Rightarrow> 's \<Rightarrow> 's"

definition convolution_layer_hw ::
  "'s externs \<Rightarrow> ptr \<Rightarrow> ptr \<Rightarrow> layer_t list \<Rightarrow> int \<Rightarrow> ptr \<Rightarrow> 's \<Rightarrow> 's" where
  "convolution_layer_hw E activations wts ls lnum result s =
     (let curr_layer = ls ! nat lnum;
          s = grab_matrix_dma E wts lnum ls s;
          s = grab_input_activations_dma E activations lnum ls s;
          s = convolution2d_smiv E activations wts curr_layer result s
      in store_output_activations_dma E result lnum ls s)"

text \<open>
  \<^verbatim>\<open>convolution_layer\<close> returns a \<^verbatim>\<open>result_buf\<close>, the pointer to the buffer that holds
  the layer's output, together with the memory it leaves behind.
\<close>

definition convolution_layer ::
  "'s externs \<Rightarrow> ptr \<Rightarrow> ptr \<Rightarrow> layer_t list \<Rightarrow> int \<Rightarrow> ptr \<Rightarrow> 's \<Rightarrow> ptr \<times> 's" where
  "convolution_layer E activations wts ls lnum result s =
     (let curr_layer = ls ! nat lnum
      in if c_padding curr_layer > 0 then
           (let padding = (field_size curr_layer - 1) sdiv 2;
                s = copy_zeropad E activations curr_layer padding result s;
                s = convolution_layer_hw E result wts ls lnum activations s
            in (activations, s))
         else (result, convolution_layer_hw E activations wts ls lnum result s))"

subsection \<open>The forward pass\<close>

record farray_t =
  d :: ptr
  farray_size :: nat

record network_t =
  layers :: "layer_t list"
  depth :: int

text \<open>
  \<^verbatim>\<open>run_layer\<close> forwards to \<^verbatim>\<open>run_layer_skip_activation_func\<close>, which is defined
  elsewhere and is a parameter here: it receives the input buffer, the weights, the
  layers, the layer number, the output buffer and the sigmoid table, and returns the
  buffer that holds the layer's output.
\<close>

type_synonym 's run_layer_fn =
  "ptr \<Rightarrow> ptr \<Rightarrow> layer_t list \<Rightarrow> int \<Rightarrow> ptr \<Rightarrow> ptr \<Rightarrow> 's \<Rightarrow> ptr \<times> 's"

definition run_layer :: "'s run_layer_fn \<Rightarrow> 's run_layer_fn" where
  "run_layer run_layer_skip_activation_func activations wts ls layer_num result sigmoid_table s =
     (let result_loc = run_layer_skip_activation_func activations wts ls layer_num result
                         sigmoid_table s
      in result_loc)"

text \<open>One iteration of \<^verbatim>\<open>nnet_fwd_outer\<close>; the loop state is \<^verbatim>\<open>result_loc\<close> and memory.\<close>

definition nnet_fwd_outer_body ::
  "'s run_layer_fn \<Rightarrow> farray_t \<Rightarrow> farray_t \<Rightarrow> farray_t \<Rightarrow> network_t \<Rightarrow> ptr \<Rightarrow> nat \<Rightarrow>
   ptr \<times> 's \<Rightarrow> ptr \<times> 's" where
  "nnet_fwd_outer_body rl activations wts result network sigmoid_table l st =
     (let result_loc = fst st; s = snd st
      in if result_loc = d result
         then run_layer rl (d result) (d wts) (layers network) (int l) (d activations)
                sigmoid_table s
         else run_layer rl (d activations) (d wts) (layers network) (int l) (d result)
                sigmoid_table s)"

definition nnet_fwd_outer ::
  "'s run_layer_fn \<Rightarrow> farray_t \<Rightarrow> farray_t \<Rightarrow> farray_t \<Rightarrow> network_t \<Rightarrow> ptr \<Rightarrow> nat \<Rightarrow>
   's \<Rightarrow> ptr \<times> 's" where
  "nnet_fwd_outer rl activations wts result network sigmoid_table n s =
     fold (nnet_fwd_outer_body rl activations wts result network sigmoid_table) [0..<n]
       (d activations, s)"

text \<open>
  What \<^verbatim>\<open>dmaStore\<close>, defined elsewhere, is asked to store: a float buffer or the array of
  layer descriptors. The outcome of \<^verbatim>\<open>nnet_fwd\<close> is the updated layer array, the final
  \<^verbatim>\<open>result_loc\<close>, the buffer handed to the output store and the memory after the loop.
  Indexing \<^verbatim>\<open>network.layers\<close> outside the array is undefined behaviour: \<open>None\<close>.
\<close>

datatype dma_src = Buf ptr | Layers "layer_t list"

record 's fwd_result =
  out_layers :: "layer_t list"
  out_result_loc :: ptr
  out_store_src :: ptr
  out_loop_state :: 's
  out_state :: 's

definition nnet_fwd ::
  "'s run_layer_fn \<Rightarrow> (dma_src \<Rightarrow> 's \<Rightarrow> 's) \<Rightarrow> farray_t \<Rightarrow> farray_t \<Rightarrow> farray_t \<Rightarrow>
   network_t \<Rightarrow> ptr \<Rightarrow> 's \<Rightarrow> 's fwd_result option" where
  "nnet_fwd rl dmaStore activations wts result network sigmoid_table s =
     (if 1 \<le> depth network \<and> depth network \<le> int (length (layers network)) then
        (let st = nnet_fwd_outer rl activations wts result network sigmoid_table
                    (nat (depth network)) s;
             result_loc = fst st;
             last = nat (depth network - 1);
             ls = (layers network)
                    [last := (layers network ! last)\<lparr>result_in_temp := (result_loc = d result)\<rparr>];
             src = (if result_loc = d result then d result else d activations);
             s' = dmaStore (Layers ls) (dmaStore (Buf src) (snd st))
         in Some \<lparr>out_layers = ls, out_result_loc = result_loc, out_store_src = src,
                  out_loop_state = snd st, out_state = s'\<rparr>)
      else None)"

subsection \<open>The operator-graph scheduler\<close>

text \<open>
  \<^verbatim>\<open>runNetwork\<close> works on a Boost graph whose vertices carry operators. The graph is a
  list of vertices and a list of edges; an edge \<open>(u, v)\<close> says that \<open>v\<close> consumes what
  \<open>u\<close> produces. \<^verbatim>\<open>boost::topological_sort\<close> is library code and a parameter of the
  model: the list of vertices in the order in which it writes them to its output
  iterator. \<^verbatim>\<open>std::front_inserter\<close> puts each of them at the front of the list.
  The operators' \<^verbatim>\<open>run\<close> and \<^verbatim>\<open>getOutput\<close> are parameters as well.
\<close>

type_synonym vertex = nat

record graph =
  vertex_list :: "vertex list"
  edge_list :: "(vertex \<times> vertex) list"

definition front_inserter :: "vertex list \<Rightarrow> vertex list" where
  "front_inserter written = fold (\<lambda>v l. v # l) written []"

text \<open>
  The loop state: the variable \<^verbatim>\<open>output\<close> (uninitialised, \<open>None\<close>, before the first
  iteration), the memory state, and the operators run so far, in order.
\<close>

record ('s, 't) run_state =
  output_var :: "'t option"
  mem :: 's
  ran :: "vertex list"

definition runNetwork_body ::
  "(vertex \<Rightarrow> 's \<Rightarrow> 's) \<Rightarrow> (vertex \<Rightarrow> nat \<Rightarrow> 's \<Rightarrow> 't) \<Rightarrow> vertex \<Rightarrow>
   ('s, 't) run_state \<Rightarrow> ('s, 't) run_state" where
  "runNetwork_body run getOutput v st =
     (let s = run v (mem st)
      in \<lparr>output_var = Some (getOutput v 0 s), mem = s, ran = ran st @ [v]\<rparr>)"

definition runNetwork ::
  "(graph \<Rightarrow> vertex list) \<Rightarrow> (vertex \<Rightarrow> 's \<Rightarrow> 's) \<Rightarrow> (vertex \<Rightarrow> nat \<Rightarrow> 's \<Rightarrow> 't) \<Rightarrow>
   graph \<Rightarrow> 's \<Rightarrow> ('s, 't) run_state" where
  "runNetwork topological_sort run getOutput g s =
     (let vertices = front_inserter (topological_sort g)
      in fold (runNetwork_body run getOutput) vertices \<lparr>output_var = None, mem = s, ran = []\<rparr>)"

text \<open>
  What the Boost documentation promises of \<^verbatim>\<open>topological_sort\<close> on an acyclic graph:
  every vertex is written exactly once, in reverse topological order, so that for an
  edge \<open>(u, v)\<close> the vertex \<open>v\<close> is written before \<open>u\<close>.
\<close>

definition position :: "vertex list \<Rightarrow> vertex \<Rightarrow> nat" where
  "position xs v = length (takeWhile (\<lambda>x. x \<noteq> v) xs)"

definition reverse_topological :: "graph \<Rightarrow> vertex list \<Rightarrow> bool" where
  "reverse_topological g written =
     (distinct written \<and> set written = set (vertex_list g) \<and>
      list_all (\<lambda>e. fst e \<in> set written \<and> snd e \<in> set written \<and>
                     position written (snd e) < position written (fst e)) (edge_list g))"

text \<open>The order the claim asks of the run: along every edge, the producer runs first.\<close>

definition dependency_order :: "graph \<Rightarrow> vertex list \<Rightarrow> bool" where
  "dependency_order g order =
     list_all (\<lambda>e. position order (fst e) < position order (snd e)) (edge_list g)"


subsection \<open>Buffer regions and well-formed descriptors\<close>

text \<open>
  The part of the result buffer that holds channel plane \<open>chan\<close>:
  \<^verbatim>\<open>result_height\<close> rows of \<^verbatim>\<open>result_padded_width\<close> floats each, after \<open>chan\<close> such
  planes. Likewise one padded row of the input plane of image \<open>img\<close> and channel \<open>chan\<close>.
\<close>

definition result_plane :: "layer_t \<Rightarrow> ptr \<Rightarrow> int \<Rightarrow> ptr set" where
  "result_plane L result chan =
     {x. result + chan * (result_height L * result_padded_width L) \<le> x \<and>
         x < result + (chan + 1) * (result_height L * result_padded_width L)}"

definition input_row :: "layer_t \<Rightarrow> ptr \<Rightarrow> int \<Rightarrow> int \<Rightarrow> int \<Rightarrow> ptr set" where
  "input_row L a img chan row =
     {x. a + ((img * k_height L + chan) * a_height L + row) * a_padded_width L \<le> x \<and>
         x < a + ((img * k_height L + chan) * a_height L + row + 1) * a_padded_width L}"

text \<open>The whole input plane of image \<open>img\<close> and channel \<open>chan\<close>: its rows 0 to \<^verbatim>\<open>a_height - 1\<close>.\<close>

definition input_plane :: "layer_t \<Rightarrow> ptr \<Rightarrow> int \<Rightarrow> int \<Rightarrow> ptr set" where
  "input_plane L a img chan =
     {x. \<exists>row. 0 \<le> row \<and> row < a_height L \<and> x \<in> input_row L a img chan row}"

text \<open>The address of element \<^verbatim>\<open>[chan][r][c]\<close> of the result array.\<close>

definition result_elem :: "layer_t \<Rightarrow> ptr \<Rightarrow> int \<Rightarrow> int \<Rightarrow> int \<Rightarrow> ptr" where
  "result_elem L result chan r c =
     result + (chan * result_height L + r) * result_padded_width L + c"

text \<open>
  Descriptors under which every subscript of the kernel stays within the arrays the
  descriptor declares. For the input: the alignment pad is not negative and pads a row to
  a whole number of vector registers, and the padded width fits a C \<^verbatim>\<open>int\<close>. For the
  output: the same of its rows, the stride is positive, and the declared number of output
  rows covers the rows the kernel produces, one for every \<^verbatim>\<open>k_stride\<close> input rows below
  \<^verbatim>\<open>end_row\<close>.
\<close>

definition input_shape_ok :: "layer_t \<Rightarrow> bool" where
  "input_shape_ok L =
     (0 \<le> a_width L \<and> 0 \<le> align_pad (inputs L) \<and> a_padded_width L < 2 ^ 31 \<and>
      a_padded_width L mod int VECTOR_SIZE = 0)"

definition output_shape_ok :: "layer_t \<Rightarrow> bool" where
  "output_shape_ok L =
     (0 < k_stride L \<and> 0 \<le> result_width L \<and> 0 \<le> align_pad (outputs L) \<and>
      result_padded_width L < 2 ^ 31 \<and>
      result_padded_width L mod int VECTOR_SIZE = 0 \<and>
      end_row L \<le> k_stride L * result_height L)"

subsection \<open>Concrete inputs\<close>

text \<open>
  Inputs on which the theorems below are exercised. The external functions of the layer
  dispatch are replaced by ones that log their name and the buffers they read and write;
  the memory state is that log.
\<close>

definition trace_externs :: "(string \<times> ptr \<times> ptr) list externs" where
  "trace_externs =
     \<lparr>copy_zeropad = (\<lambda>a L p r s. s @ [(''copy_zeropad'', a, r)]),
      grab_matrix_dma = (\<lambda>w l ls s. s @ [(''grab_matrix_dma'', w, w)]),
      grab_input_activations_dma = (\<lambda>a l ls s. s @ [(''grab_input_activations_dma'', a, a)]),
      convolution2d_smiv = (\<lambda>a w L r s. s @ [(''convolution2d_smiv'', a, r)]),
      store_output_activations_dma = (\<lambda>r l ls s. s @ [(''store_output_activations_dma'', r, r)])\<rparr>"

definition plain_layer :: layer_t where
  "plain_layer =
     \<lparr>inputs = \<lparr>rows = 3, cols = 8, height = 1, align_pad = 0\<rparr>,
      weights = \<lparr>rows = 3, cols = 3, height = 1, align_pad = 5\<rparr>,
      outputs = \<lparr>rows = 1, cols = 6, height = 1, align_pad = 2\<rparr>,
      field_size = 3, field_stride = 1, c_padding = 0, result_in_temp = False\<rparr>"

definition padded_layer :: layer_t where
  "padded_layer = plain_layer\<lparr>c_padding := 1\<rparr>"

text \<open>
  A stand-in for \<^verbatim>\<open>run_layer_skip_activation_func\<close> and one for \<^verbatim>\<open>dmaStore\<close>. The
  memory state is the buffer written last, the list of the layer calls made so far (input
  buffer, layer number, buffer given for the result) and the list of the stores made so
  far. A padded layer leaves its output in the buffer it was given as input, any other
  layer in the buffer it was given for the result.
\<close>

type_synonym fwd_log = "ptr \<times> (ptr \<times> int \<times> ptr) list \<times> dma_src list"

definition logging_run_layer :: "fwd_log run_layer_fn" where
  "logging_run_layer a w ls l r t s =
     (let out = (if c_padding (ls ! nat l) > 0 then a else r)
      in (out, (out, fst (snd s) @ [(a, l, r)], snd (snd s))))"

definition logging_dmaStore :: "dma_src \<Rightarrow> fwd_log \<Rightarrow> fwd_log" where
  "logging_dmaStore src s = (fst s, fst (snd s), snd (snd s) @ [src])"

definition three_layers :: network_t where
  "three_layers = \<lparr>layers = [padded_layer, plain_layer, padded_layer], depth = 3\<rparr>"

definition layer_stride2 :: layer_t where
  "layer_stride2 =
     \<lparr>inputs = \<lparr>rows = 3, cols = 16, height = 1, align_pad = 0\<rparr>,
      weights = \<lparr>rows = 3, cols = 3, height = 1, align_pad = 5\<rparr>,
      outputs = \<lparr>rows = 1, cols = 7, height = 1, align_pad = 1\<rparr>,
      field_size = 3, field_stride = 2, c_padding = 0, result_in_temp = False\<rparr>"

definition layer_stride3 :: layer_t where
  "layer_stride3 =
     \<lparr>inputs = \<lparr>rows = 3, cols = 8, height = 1, align_pad = 0\<rparr>,
      weights = \<lparr>rows = 3, cols = 3, height = 1, align_pad = 5\<rparr>,
      outputs = \<lparr>rows = 1, cols = 2, height = 1, align_pad = 6\<rparr>,
      field_size = 3, field_stride = 3, c_padding = 0, result_in_temp = False\<rparr>"

text \<open>
  A store with all-zero activations at addresses 0 to 99, weights 1 at 100 to 123, and
  the value 5, left by earlier work, in the result buffer at 200 to 207.
\<close>

definition stale_heap :: heap where
  "stale_heap =
     (\<lambda>x. if 100 \<le> x \<and> x < 124 then 1 else if 200 \<le> x \<and> x < 208 then 5 else 0)"

text \<open>A graph of three operators, \<open>0 \<rightarrow> 1 \<rightarrow> 2\<close> and \<open>0 \<rightarrow> 2\<close>.\<close>

definition chain_graph :: graph where
  "chain_graph = \<lparr>vertex_list = [0, 1, 2], edge_list = [(0, 1), (1, 2), (0, 2)]\<rparr>"

section \<open>Properties\<close>

subsection \<open>The partial-sum merge\<close>

text \<open>Both loops of the merge, as invariants over the number of iterations done.\<close>

lemma merge_single_fold:
  "n \<le> length r \<Longrightarrow>
   length (fold (merge_single_body p0 p1) [0..<n] r) = length r \<and>
   (\<forall>i<length r. fold (merge_single_body p0 p1) [0..<n] r ! i =
       (if i < n then r ! i + (p0 ! i + p1 ! i) else r ! i))"
proof (induction n)
  case 0
  then show ?case by simp
next
  case (Suc n)
  then show ?case
    by (auto simp: merge_single_body_def nth_list_update less_Suc_eq)
qed

lemma merge_double_fold:
  "2 * n \<le> length r \<Longrightarrow>
   length (fold (merge_double_body p0 p1) [0..<n] r) = length r \<and>
   (\<forall>j<length r. fold (merge_double_body p0 p1) [0..<n] r ! j =
       (if j < 2 * n then r ! j + (if even j then p0 ! (j div 2) else p1 ! (j div 2))
        else r ! j))"
proof (induction n)
  case 0
  then show ?case by simp
next
  case (Suc n)
  then have IH: "length (fold (merge_double_body p0 p1) [0..<n] r) = length r"
    "\<And>j. j < length r \<Longrightarrow> fold (merge_double_body p0 p1) [0..<n] r ! j =
       (if j < 2 * n then r ! j + (if even j then p0 ! (j div 2) else p1 ! (j div 2))
        else r ! j)"
    by auto
  show ?case
  proof (intro conjI allI impI)
    show "length (fold (merge_double_body p0 p1) [0..<Suc n] r) = length r"
      using IH(1) by (simp add: merge_double_body_def Let_def)
  next
    fix j assume j: "j < length r"
    consider "j = 2 * n" | "j = 2 * n + 1" | "j < 2 * n" | "j > 2 * n + 1" by linarith
    then show "fold (merge_double_body p0 p1) [0..<Suc n] r ! j =
       (if j < 2 * Suc n then r ! j + (if even j then p0 ! (j div 2) else p1 ! (j div 2))
        else r ! j)"
      using j IH(1) IH(2)[of j] Suc.prems
      by cases (auto simp: merge_double_body_def Let_def nth_list_update)
  qed
qed

text \<open>
  Claim C1. \<^verbatim>\<open>merge_psums_simd_fxp\<close> is a function of its three arguments alone: it
  reads the two partial-sum vectors and the flag, and writes only its local result, which
  starts as the zero vector. In double-throughput mode lanes \<open>2i\<close> and \<open>2i + 1\<close> of the
  result are lane \<open>i\<close> of \<^verbatim>\<open>psums_0\<close> and of \<^verbatim>\<open>psums_1\<close>, for \<open>i\<close> below half the vector
  width; in single-throughput mode lane \<open>i\<close> is the sum of the two lanes \<open>i\<close>, for every
  lane of the vector. The result is again an eight-lane vector. Being a function of the
  embedding, equal arguments give equal results.
\<close>

theorem merge_psums_interleave_or_sum:
  assumes "is_v8fp psums_0" "is_v8fp psums_1"
  shows "(\<forall>i < VECTOR_SIZE div 2.
            merge_psums_simd_fxp psums_0 psums_1 True ! (2 * i) = psums_0 ! i \<and>
            merge_psums_simd_fxp psums_0 psums_1 True ! (2 * i + 1) = psums_1 ! i) \<and>
         (\<forall>i < VECTOR_SIZE.
            merge_psums_simd_fxp psums_0 psums_1 False ! i = psums_0 ! i + psums_1 ! i) \<and>
         is_v8fp (merge_psums_simd_fxp psums_0 psums_1 tp)"
proof -
  have z: "length v8fp_zero = VECTOR_SIZE" "\<And>i. i < VECTOR_SIZE \<Longrightarrow> v8fp_zero ! i = 0"
    by (simp_all add: v8fp_zero_def)
  have d: "2 * (VECTOR_SIZE div 2) \<le> length v8fp_zero"
    by (simp add: z)
  have s: "VECTOR_SIZE \<le> length v8fp_zero"
    by (simp add: z)
  note D = merge_double_fold[OF d, of psums_0 psums_1]
  note S = merge_single_fold[OF s, of psums_0 psums_1]
  have ev: "2 * (VECTOR_SIZE div 2) = VECTOR_SIZE" by (simp add: VECTOR_SIZE_def)
  show ?thesis
  proof (intro conjI allI impI)
    fix i assume i: "i < VECTOR_SIZE div 2"
    then have i2: "2 * i < VECTOR_SIZE" "2 * i + 1 < VECTOR_SIZE" using ev by linarith+
    show "merge_psums_simd_fxp psums_0 psums_1 True ! (2 * i) = psums_0 ! i"
      using D i i2 z by (simp add: merge_psums_simd_fxp_def)
    show "merge_psums_simd_fxp psums_0 psums_1 True ! (2 * i + 1) = psums_1 ! i"
      using D i i2 z by (simp add: merge_psums_simd_fxp_def)
  next
    fix i assume i: "i < VECTOR_SIZE"
    show "merge_psums_simd_fxp psums_0 psums_1 False ! i = psums_0 ! i + psums_1 ! i"
      using S i z by (simp add: merge_psums_simd_fxp_def)
  next
    show "is_v8fp (merge_psums_simd_fxp psums_0 psums_1 tp)"
      using D S z by (simp add: merge_psums_simd_fxp_def is_v8fp_def)
  qed
qed

theorem merge_psums_interleave_or_sum_witness:
  "is_v8fp [1, 2, 3, 4, 5, 6, 7, 8] \<and> is_v8fp [10, 20, 30, 40, 50, 60, 70, 80] \<and>
   merge_psums_simd_fxp [1, 2, 3, 4, 5, 6, 7, 8] [10, 20, 30, 40, 50, 60, 70, 80] True ! 2 = 2 \<and>
   merge_psums_simd_fxp [1, 2, 3, 4, 5, 6, 7, 8] [10, 20, 30, 40, 50, 60, 70, 80] True ! 3 = 20 \<and>
   merge_psums_simd_fxp [1, 2, 3, 4, 5, 6, 7, 8] [10, 20, 30, 40, 50, 60, 70, 80] False ! 7 = 88"
proof -
  have h0: "is_v8fp [1, 2, 3, 4, 5, 6, 7, 8]"
    and h1: "is_v8fp [10, 20, 30, 40, 50, 60, 70, 80]"
    by (simp_all add: is_v8fp_def VECTOR_SIZE_def)
  have i1: "(1::nat) < VECTOR_SIZE div 2" and i7: "(7::nat) < VECTOR_SIZE"
    by (simp_all add: VECTOR_SIZE_def)
  from merge_psums_interleave_or_sum [OF h0 h1] i1 i7
  have "merge_psums_simd_fxp [1, 2, 3, 4, 5, 6, 7, 8] [10, 20, 30, 40, 50, 60, 70, 80] True ! (2 * 1)
          = [1, 2, 3, 4, 5, 6, 7, 8] ! 1"
    and "merge_psums_simd_fxp [1, 2, 3, 4, 5, 6, 7, 8] [10, 20, 30, 40, 50, 60, 70, 80] True ! (2 * 1 + 1)
          = [10, 20, 30, 40, 50, 60, 70, 80] ! 1"
    and "merge_psums_simd_fxp [1, 2, 3, 4, 5, 6, 7, 8] [10, 20, 30, 40, 50, 60, 70, 80] False ! 7
          = [1, 2, 3, 4, 5, 6, 7, 8] ! 7 + [10, 20, 30, 40, 50, 60, 70, 80] ! 7"
    by blast+
  with h0 h1 show ?thesis by simp
qed

subsection \<open>The shift registers as flat lane arrays\<close>

lemma shift_reg_cases:
  assumes "is_shift_reg reg"
  obtains u0 u1 where "reg = [u0, u1]" "length u0 = 8" "length u1 = 8"
proof -
  from assms have "length reg = Suc (Suc 0)"
    by (simp add: is_shift_reg_def SR_SIZE_def SHIFT_REG_SIZE_def VECTOR_SIZE_def)
  then obtain u0 u1 where r: "reg = [u0, u1]"
    by (auto simp: length_Suc_conv)
  with assms have "length u0 = 8" "length u1 = 8"
    by (simp_all add: is_shift_reg_def is_v8fp_def VECTOR_SIZE_def)
  with r that show ?thesis by blast
qed

lemma length_lanes: "is_shift_reg reg \<Longrightarrow> length (lanes reg) = SHIFT_REG_SIZE"
  by (erule shift_reg_cases) (simp add: lanes_def SHIFT_REG_SIZE_def)

lemma lanes_nth:
  assumes "is_shift_reg reg" "i < SHIFT_REG_SIZE"
  shows "reg ! (i div VECTOR_SIZE) ! (i mod VECTOR_SIZE) = lanes reg ! i"
proof -
  from assms(1) obtain u0 u1 where r: "reg = [u0, u1]" "length u0 = 8" "length u1 = 8"
    by (rule shift_reg_cases)
  show ?thesis
  proof (cases "i < 8")
    case True
    then show ?thesis using r by (simp add: lanes_def VECTOR_SIZE_def nth_append)
  next
    case False
    with assms(2) have "i div 8 = 1" "i mod 8 = i - 8"
      unfolding SHIFT_REG_SIZE_def by presburger+
    with False show ?thesis using r by (simp add: lanes_def VECTOR_SIZE_def nth_append)
  qed
qed

lemma lanes_update:
  assumes "is_shift_reg reg" "i < SHIFT_REG_SIZE"
  shows "is_shift_reg (reg[i div VECTOR_SIZE := (reg ! (i div VECTOR_SIZE))[i mod VECTOR_SIZE := v]]) \<and>
         lanes (reg[i div VECTOR_SIZE := (reg ! (i div VECTOR_SIZE))[i mod VECTOR_SIZE := v]]) =
           (lanes reg)[i := v]"
proof -
  from assms(1) obtain u0 u1 where r: "reg = [u0, u1]" "length u0 = 8" "length u1 = 8"
    by (rule shift_reg_cases)
  show ?thesis
  proof (cases "i < 8")
    case True
    then show ?thesis using r
      by (simp add: lanes_def VECTOR_SIZE_def list_update_append is_shift_reg_def
          is_v8fp_def SR_SIZE_def SHIFT_REG_SIZE_def)
  next
    case False
    with assms(2) have "i div 8 = 1" "i mod 8 = i - 8"
      unfolding SHIFT_REG_SIZE_def by presburger+
    with False show ?thesis using r
      by (simp add: lanes_def VECTOR_SIZE_def list_update_append is_shift_reg_def
          is_v8fp_def SR_SIZE_def SHIFT_REG_SIZE_def)
  qed
qed

lemma lanes_inject:
  assumes "is_shift_reg a" "is_shift_reg b" "lanes a = lanes b"
  shows "a = b"
proof -
  from assms(1) obtain u0 u1 where a: "a = [u0, u1]" "length u0 = 8" "length u1 = 8"
    by (rule shift_reg_cases)
  from assms(2) obtain w0 w1 where b: "b = [w0, w1]" "length w0 = 8" "length w1 = 8"
    by (rule shift_reg_cases)
  from assms(3) a b show ?thesis by (simp add: lanes_def)
qed

lemma shidx_of_mod: "shidx_of shamt sr = (sr + unat shamt) mod 2 ^ 32"
  by (simp add: shidx_of_def unat_word_ariths unat_of_nat mod_add_left_eq)

lemma lshift_body_lanes:
  assumes "is_shift_reg reg" "sr < SHIFT_REG_SIZE"
  shows "is_shift_reg (lshift_body shamt sr reg) \<and>
         lanes (lshift_body shamt sr reg) =
           (lanes reg)[sr := (if shidx_of shamt sr < SHIFT_REG_SIZE
                              then lanes reg ! shidx_of shamt sr else 0)]"
  using lanes_update[OF assms] lanes_nth[OF assms(1), of "shidx_of shamt sr"]
  by (simp add: lshift_body_def Let_def shidx_of_def)

lemma lshift_fold_inv:
  assumes "is_shift_reg reg" "k \<le> SHIFT_REG_SIZE"
  shows "is_shift_reg (fold (lshift_body shamt) [0..<k] reg) \<and>
         (\<forall>i<SHIFT_REG_SIZE. lanes (fold (lshift_body shamt) [0..<k] reg) ! i =
            (if i < k then (if i + unat shamt < SHIFT_REG_SIZE
                            then lanes reg ! (i + unat shamt) else 0)
             else lanes reg ! i))"
  using assms(2)
proof (induction k)
  case 0
  then show ?case using assms(1) by simp
next
  case (Suc k)
  let ?r = "fold (lshift_body shamt) [0..<k] reg"
  from Suc have k: "k < SHIFT_REG_SIZE" by simp
  from Suc have wf: "is_shift_reg ?r"
    and IH: "\<And>i. i < SHIFT_REG_SIZE \<Longrightarrow> lanes ?r ! i =
            (if i < k then (if i + unat shamt < SHIFT_REG_SIZE
                            then lanes reg ! (i + unat shamt) else 0)
             else lanes reg ! i)"
    by simp_all
  note B = lshift_body_lanes[OF wf k, of shamt]
  have len: "length (lanes ?r) = SHIFT_REG_SIZE" using wf by (rule length_lanes)
  have src: "(if shidx_of shamt k < SHIFT_REG_SIZE then lanes ?r ! shidx_of shamt k else 0) =
             (if k + unat shamt < SHIFT_REG_SIZE then lanes reg ! (k + unat shamt) else 0)"
  proof (cases "k + unat shamt < 2 ^ 32")
    case True
    then have e: "shidx_of shamt k = k + unat shamt" by (simp add: shidx_of_mod)
    show ?thesis using IH[of "k + unat shamt"] by (simp add: e)
  next
    case False
    then have big: "SHIFT_REG_SIZE \<le> unat shamt"
      using k by (simp add: SHIFT_REG_SIZE_def)
    have u: "unat shamt < 2 ^ 32" using unsigned_less[of shamt] by simp
    have k16: "k < 2 ^ 32" using k by (simp add: SHIFT_REG_SIZE_def)
    have "(k + unat shamt) mod 2 ^ 32 = (k + unat shamt - 2 ^ 32) mod 2 ^ 32"
      using False by (simp add: le_mod_geq)
    also have "\<dots> = k + unat shamt - 2 ^ 32"
      by (rule mod_less) (use u k16 in linarith)
    finally have e: "shidx_of shamt k = k + unat shamt - 2 ^ 32"
      by (simp add: shidx_of_mod)
    with u have lt: "shidx_of shamt k < k" using False by linarith
    then have "lanes ?r ! shidx_of shamt k = 0"
      using IH[of "shidx_of shamt k"] k big by simp
    then show ?thesis using big by simp
  qed
  show ?case
  proof (intro conjI allI impI)
    show "is_shift_reg (fold (lshift_body shamt) [0..<Suc k] reg)"
      using B by simp
  next
    fix i assume i: "i < SHIFT_REG_SIZE"
    show "lanes (fold (lshift_body shamt) [0..<Suc k] reg) ! i =
          (if i < Suc k then (if i + unat shamt < SHIFT_REG_SIZE
                            then lanes reg ! (i + unat shamt) else 0)
             else lanes reg ! i)"
      using B src IH[OF i] i len k
      by (auto simp: nth_list_update less_Suc_eq)
  qed
qed

lemma lshift2_body_pair:
  "lshift2_body shamt sr (r0, r1) = (lshift_body shamt sr r0, lshift_body shamt sr r1)"
  unfolding lshift2_body_def lshift_body_def Let_def fst_conv snd_conv
  by (rule if_split[THEN iffD2]) simp

lemma lshift2_fold:
  "fold (lshift2_body shamt) xs (r0, r1) =
     (fold (lshift_body shamt) xs r0, fold (lshift_body shamt) xs r1)"
  by (induction xs arbitrary: r0 r1) (simp_all add: lshift2_body_pair)

text \<open>
  Claim C8. On a shift register of \<^verbatim>\<open>SR_SIZE\<close> vector units, seen as one flat array of
  \<^verbatim>\<open>SHIFT_REG_SIZE\<close> lanes, \<^verbatim>\<open>shift_reg_simd_lshift\<close> sets lane \<open>i\<close> to the old lane
  \<open>i + shamt\<close> when that index is below \<^verbatim>\<open>SHIFT_REG_SIZE\<close> and to zero otherwise, for
  every unsigned 32-bit shift amount (also where \<^verbatim>\<open>sr + shamt\<close> wraps). The shape of
  the register is kept, a shift by 0 is the identity, a shift by \<^verbatim>\<open>SHIFT_REG_SIZE\<close> or
  more gives all zeros, and \<^verbatim>\<open>shift_regs_simd_lshift\<close> does to each of its two registers
  what \<^verbatim>\<open>shift_reg_simd_lshift\<close> does to one.
\<close>

theorem shift_reg_lshift_lanes:
  assumes "is_shift_reg reg"
  shows "is_shift_reg (shift_reg_simd_lshift reg shamt) \<and>
         (\<forall>i<SHIFT_REG_SIZE. lanes (shift_reg_simd_lshift reg shamt) ! i =
            (if i + unat shamt < SHIFT_REG_SIZE then lanes reg ! (i + unat shamt) else 0)) \<and>
         shift_reg_simd_lshift reg 0 = reg \<and>
         (SHIFT_REG_SIZE \<le> unat shamt \<longrightarrow>
            lanes (shift_reg_simd_lshift reg shamt) = replicate SHIFT_REG_SIZE 0) \<and>
         shift_regs_simd_lshift reg reg' shamt =
            (shift_reg_simd_lshift reg shamt, shift_reg_simd_lshift reg' shamt)"
proof -
  note I = lshift_fold_inv[OF assms order_refl, folded shift_reg_simd_lshift_def]
  have wf: "is_shift_reg (shift_reg_simd_lshift reg shamt)" for shamt
    using I by simp
  have nth: "i < SHIFT_REG_SIZE \<Longrightarrow> lanes (shift_reg_simd_lshift reg shamt) ! i =
            (if i + unat shamt < SHIFT_REG_SIZE then lanes reg ! (i + unat shamt) else 0)"
    for i shamt
    using I by simp
  have id: "shift_reg_simd_lshift reg 0 = reg"
  proof (rule lanes_inject[OF wf assms])
    show "lanes (shift_reg_simd_lshift reg 0) = lanes reg"
      by (rule nth_equalityI) (simp_all add: length_lanes wf assms nth)
  qed
  have zero: "lanes (shift_reg_simd_lshift reg shamt) = replicate SHIFT_REG_SIZE 0"
    if "SHIFT_REG_SIZE \<le> unat shamt"
    by (rule nth_equalityI) (use that in \<open>simp_all add: length_lanes wf nth\<close>)
  have pair: "shift_regs_simd_lshift reg reg' shamt =
            (shift_reg_simd_lshift reg shamt, shift_reg_simd_lshift reg' shamt)"
    by (simp add: shift_regs_simd_lshift_def shift_reg_simd_lshift_def lshift2_fold)
  from wf nth id zero pair show ?thesis by blast
qed

theorem shift_reg_lshift_lanes_witness:
  "is_shift_reg [[1, 2, 3, 4, 5, 6, 7, 8], [9, 10, 11, 12, 13, 14, 15, 16]] \<and>
   lanes (shift_reg_simd_lshift [[1, 2, 3, 4, 5, 6, 7, 8], [9, 10, 11, 12, 13, 14, 15, 16]] 3) ! 6 = 10 \<and>
   lanes (shift_reg_simd_lshift [[1, 2, 3, 4, 5, 6, 7, 8], [9, 10, 11, 12, 13, 14, 15, 16]] 3) ! 13 = 0 \<and>
   lanes (shift_reg_simd_lshift [[1, 2, 3, 4, 5, 6, 7, 8], [9, 10, 11, 12, 13, 14, 15, 16]] 16)
     = replicate SHIFT_REG_SIZE 0"
proof -
  have h: "is_shift_reg [[1, 2, 3, 4, 5, 6, 7, 8], [9, 10, 11, 12, 13, 14, 15, 16]]"
    by (simp add: is_shift_reg_def is_v8fp_def SR_SIZE_def SHIFT_REG_SIZE_def VECTOR_SIZE_def)
  have i: "(6::nat) < SHIFT_REG_SIZE" "(13::nat) < SHIFT_REG_SIZE"
    and s: "SHIFT_REG_SIZE \<le> unat (16 :: 32 word)"
    by (simp_all add: SHIFT_REG_SIZE_def)
  from shift_reg_lshift_lanes [OF h, of 3] i
  have "lanes (shift_reg_simd_lshift [[1, 2, 3, 4, 5, 6, 7, 8], [9, 10, 11, 12, 13, 14, 15, 16]] 3) ! 6 =
          (if 6 + unat (3 :: 32 word) < SHIFT_REG_SIZE
           then lanes [[1, 2, 3, 4, 5, 6, 7, 8], [9, 10, 11, 12, 13, 14, 15, 16]] ! (6 + unat (3 :: 32 word)) else 0)"
    and "lanes (shift_reg_simd_lshift [[1, 2, 3, 4, 5, 6, 7, 8], [9, 10, 11, 12, 13, 14, 15, 16]] 3) ! 13 =
          (if 13 + unat (3 :: 32 word) < SHIFT_REG_SIZE
           then lanes [[1, 2, 3, 4, 5, 6, 7, 8], [9, 10, 11, 12, 13, 14, 15, 16]] ! (13 + unat (3 :: 32 word)) else 0)"
    by blast+
  moreover from shift_reg_lshift_lanes [OF h, of 16] s
  have "lanes (shift_reg_simd_lshift [[1, 2, 3, 4, 5, 6, 7, 8], [9, 10, 11, 12, 13, 14, 15, 16]] 16)
     = replicate SHIFT_REG_SIZE 0"
    by blast
  ultimately show ?thesis using h by (simp add: SHIFT_REG_SIZE_def lanes_def)
qed

subsection \<open>The multiply-accumulate datapath\<close>

lemma shift_regs_simd_lshift_pair:
  "shift_regs_simd_lshift r0 r1 shamt =
     (shift_reg_simd_lshift r0 shamt, shift_reg_simd_lshift r1 shamt)"
  by (simp add: shift_regs_simd_lshift_def shift_reg_simd_lshift_def lshift2_fold)

lemma dp_core_fold:
  "fold (conv2d_dp_core w r0 r1) [0..<m] (a, b) =
     (a + (\<Sum>j = 0..<m. w ! j * r0 ! 0 ! j),
      b + (\<Sum>j = 0..<m. w ! (j + DATAPATH_WIDTH) * r1 ! 0 ! j))"
  by (induction m) (simp_all add: conv2d_dp_core_def)

lemma dp_outer_step:
  "conv2d_dp_outer w s d1 k st =
     \<lparr>psums_tmp_0 = (psums_tmp_0 st)[k := psums_tmp_0 st ! k + dot_product w 0 (pipe0_reg st)],
      psums_tmp_1 = (if k < unat d1
                     then (psums_tmp_1 st)[k := psums_tmp_1 st ! k
                                                 + dot_product w DATAPATH_WIDTH (pipe1_reg st)]
                     else psums_tmp_1 st),
      pipe0_reg = shift_reg_simd_lshift (pipe0_reg st) s,
      pipe1_reg = shift_reg_simd_lshift (pipe1_reg st) s\<rparr>"
  by (simp add: conv2d_dp_outer_def dp_core_fold shift_regs_simd_lshift_pair
      dot_product_def Let_def)

lemma current_reg_Suc:
  "current_reg s (Suc i) r = shift_reg_simd_lshift (current_reg s i r) s"
  by (simp add: current_reg_def)

lemma dp_outer_fold_inv:
  fixes w s d1 r0 r1
  assumes "length p0 = VECTOR_SIZE" "length p1 = VECTOR_SIZE" "n \<le> VECTOR_SIZE"
  defines "F \<equiv> \<lambda>n. fold (conv2d_dp_outer w s d1) [0..<n]
              \<lparr>psums_tmp_0 = p0, psums_tmp_1 = p1, pipe0_reg = r0, pipe1_reg = r1\<rparr>"
  shows "pipe0_reg (F n) = current_reg s n r0 \<and> pipe1_reg (F n) = current_reg s n r1 \<and>
         length (psums_tmp_0 (F n)) = VECTOR_SIZE \<and> length (psums_tmp_1 (F n)) = VECTOR_SIZE \<and>
         (\<forall>i<VECTOR_SIZE. psums_tmp_0 (F n) ! i =
            (if i < n then p0 ! i + dot_product w 0 (current_reg s i r0) else p0 ! i)) \<and>
         (\<forall>i<VECTOR_SIZE. psums_tmp_1 (F n) ! i =
            (if i < n \<and> i < unat d1
             then p1 ! i + dot_product w DATAPATH_WIDTH (current_reg s i r1) else p1 ! i))"
  using assms(3)
proof (induction n)
  case 0
  then show ?case using assms(1,2) by (simp add: F_def current_reg_def)
next
  case (Suc n)
  then have n: "n < VECTOR_SIZE" by simp
  from Suc have IH:
    "pipe0_reg (F n) = current_reg s n r0" "pipe1_reg (F n) = current_reg s n r1"
    "length (psums_tmp_0 (F n)) = VECTOR_SIZE" "length (psums_tmp_1 (F n)) = VECTOR_SIZE"
    "\<And>i. i < VECTOR_SIZE \<Longrightarrow> psums_tmp_0 (F n) ! i =
            (if i < n then p0 ! i + dot_product w 0 (current_reg s i r0) else p0 ! i)"
    "\<And>i. i < VECTOR_SIZE \<Longrightarrow> psums_tmp_1 (F n) ! i =
            (if i < n \<and> i < unat d1
             then p1 ! i + dot_product w DATAPATH_WIDTH (current_reg s i r1) else p1 ! i)"
    by simp_all
  have step: "F (Suc n) = conv2d_dp_outer w s d1 n (F n)"
    by (simp add: F_def)
  show ?case
    unfolding step dp_outer_step
    using IH n
    by (auto simp: current_reg_Suc nth_list_update less_Suc_eq)
qed

text \<open>
  Claim C2. For a call of \<^verbatim>\<open>conv_macc_datapath_simd_fxp\<close> with \<^verbatim>\<open>dp1_iters\<close> at most
  \<^verbatim>\<open>dp0_iters\<close>, and \<^verbatim>\<open>dp0_iters\<close> within the eight lanes of a partial-sum vector:
  lane \<open>i\<close> of \<^verbatim>\<open>psums_0\<close>, for \<open>i\<close> below \<^verbatim>\<open>dp0_iters\<close>, grows by the dot product of the
  low \<^verbatim>\<open>DATAPATH_WIDTH\<close> weights with the first lanes of the pipe-0 register as it is in
  iteration \<open>i\<close>; lane \<open>i\<close> of \<^verbatim>\<open>psums_1\<close>, for \<open>i\<close> below \<^verbatim>\<open>dp1_iters\<close>, grows by the dot
  product of the high \<^verbatim>\<open>DATAPATH_WIDTH\<close> weights with the first lanes of the pipe-1
  register of iteration \<open>i\<close>; the lanes of \<^verbatim>\<open>psums_1\<close> from \<^verbatim>\<open>dp1_iters\<close> on, and those
  of \<^verbatim>\<open>psums_0\<close> from \<^verbatim>\<open>dp0_iters\<close> on, keep their values; and the register of
  iteration \<open>i + 1\<close> is the one of iteration \<open>i\<close> shifted left by \<^verbatim>\<open>dp_shamt\<close>, for both
  pipes alike, so that on return both have been shifted \<^verbatim>\<open>dp0_iters\<close> times.
\<close>

theorem conv_macc_datapath_accumulates:
  assumes "iters1 \<le> iters0" and "unat iters0 \<le> VECTOR_SIZE"
    and "is_v8fp psums_0" and "is_v8fp psums_1"
  shows
    "(\<forall>i < unat iters0.
        psums_tmp_0 (conv_macc_datapath_simd_fxp weights_buffer pipe0 pipe1 shamt
                       iters0 iters1 psums_0 psums_1) ! i =
          psums_0 ! i + dot_product weights_buffer 0 (current_reg shamt i pipe0)) \<and>
     (\<forall>i < unat iters1.
        psums_tmp_1 (conv_macc_datapath_simd_fxp weights_buffer pipe0 pipe1 shamt
                       iters0 iters1 psums_0 psums_1) ! i =
          psums_1 ! i + dot_product weights_buffer DATAPATH_WIDTH (current_reg shamt i pipe1)) \<and>
     (\<forall>i. unat iters1 \<le> i \<and> i < VECTOR_SIZE \<longrightarrow>
        psums_tmp_1 (conv_macc_datapath_simd_fxp weights_buffer pipe0 pipe1 shamt
                       iters0 iters1 psums_0 psums_1) ! i = psums_1 ! i) \<and>
     (\<forall>i. unat iters0 \<le> i \<and> i < VECTOR_SIZE \<longrightarrow>
        psums_tmp_0 (conv_macc_datapath_simd_fxp weights_buffer pipe0 pipe1 shamt
                       iters0 iters1 psums_0 psums_1) ! i = psums_0 ! i) \<and>
     pipe0_reg (conv_macc_datapath_simd_fxp weights_buffer pipe0 pipe1 shamt
                  iters0 iters1 psums_0 psums_1) =
       current_reg shamt (unat iters0) pipe0 \<and>
     pipe1_reg (conv_macc_datapath_simd_fxp weights_buffer pipe0 pipe1 shamt
                  iters0 iters1 psums_0 psums_1) =
       current_reg shamt (unat iters0) pipe1 \<and>
     (\<forall>i reg. current_reg shamt (Suc i) reg =
                 shift_reg_simd_lshift (current_reg shamt i reg) shamt) \<and>
     (\<forall>reg. current_reg shamt 0 reg = reg)"
proof -
  have le: "unat iters1 \<le> unat iters0"
    using assms(1) by (simp add: word_le_nat_alt)
  note I = dp_outer_fold_inv[of psums_0 psums_1 "unat iters0" weights_buffer shamt
      iters1 pipe0 pipe1, folded conv_macc_datapath_simd_fxp_def,
      OF assms(3)[unfolded is_v8fp_def] assms(4)[unfolded is_v8fp_def] assms(2)]
  show ?thesis
    using I le assms(2)
    by (auto simp: current_reg_Suc current_reg_def)
qed

theorem conv_macc_datapath_accumulates_witness:
  "(1 :: 32 word) \<le> 2 \<and> unat (2 :: 32 word) \<le> VECTOR_SIZE \<and>
   is_v8fp [0, 0, 0, 0, 0, 0, 0, 0] \<and>
   psums_tmp_0 (conv_macc_datapath_simd_fxp [1, 0, 0, 0, 0, 1, 0, 0]
      [[1, 2, 3, 4, 5, 6, 7, 8], [9, 10, 11, 12, 13, 14, 15, 16]]
      [[1, 2, 3, 4, 5, 6, 7, 8], [9, 10, 11, 12, 13, 14, 15, 16]] 1 2 1
      [0, 0, 0, 0, 0, 0, 0, 0] [0, 0, 0, 0, 0, 0, 0, 0]) ! 1 = 2 \<and>
   psums_tmp_1 (conv_macc_datapath_simd_fxp [1, 0, 0, 0, 0, 1, 0, 0]
      [[1, 2, 3, 4, 5, 6, 7, 8], [9, 10, 11, 12, 13, 14, 15, 16]]
      [[1, 2, 3, 4, 5, 6, 7, 8], [9, 10, 11, 12, 13, 14, 15, 16]] 1 2 1
      [0, 0, 0, 0, 0, 0, 0, 0] [0, 0, 0, 0, 0, 0, 0, 0]) ! 1 = 0"
proof -
  have h1: "(1 :: 32 word) \<le> 2" by simp
  have h2: "unat (2 :: 32 word) \<le> VECTOR_SIZE" by (simp add: VECTOR_SIZE_def)
  have h3: "is_v8fp [0, 0, 0, 0, 0, 0, 0, 0]" by (simp add: is_v8fp_def VECTOR_SIZE_def)
  have i0: "(1 :: nat) < unat (2 :: 32 word)" by simp
  have i1: "unat (1 :: 32 word) \<le> (1 :: nat) \<and> (1 :: nat) < VECTOR_SIZE"
    by (simp add: VECTOR_SIZE_def)
  have cur: "current_reg 1 1 [[1, 2, 3, 4, 5, 6, 7, 8], [9, 10, 11, 12, 13, 14, 15, 16]] =
      shift_reg_simd_lshift [[1, 2, 3, 4, 5, 6, 7, 8], [9, 10, 11, 12, 13, 14, 15, 16]] 1"
    by (simp add: current_reg_def)
  have dot: "dot_product [1, 0, 0, 0, 0, 1, 0, 0] 0
     (shift_reg_simd_lshift [[1, 2, 3, 4, 5, 6, 7, 8], [9, 10, 11, 12, 13, 14, 15, 16]] 1) = 2"
    by code_simp
  note T = conv_macc_datapath_accumulates [OF h1 h2 h3 h3, of "[1, 0, 0, 0, 0, 1, 0, 0]"
      "[[1, 2, 3, 4, 5, 6, 7, 8], [9, 10, 11, 12, 13, 14, 15, 16]]"
      "[[1, 2, 3, 4, 5, 6, 7, 8], [9, 10, 11, 12, 13, 14, 15, 16]]" 1]
  note A = T [THEN conjunct1, rule_format, OF i0]
  note B = T [THEN conjunct2, THEN conjunct2, THEN conjunct1, rule_format, OF i1]
  have z: "[0, 0, 0, 0, 0, 0, 0, 0] ! 1 = (0 :: real)" by simp
  show ?thesis
    unfolding A B cur dot z using h1 h2 h3 by simp
qed


subsection \<open>Layer dispatch\<close>

text \<open>
  Claim C6. For a layer number within the layer array: if the layer's \<^verbatim>\<open>c_padding\<close> is
  greater than 0, \<^verbatim>\<open>convolution_layer\<close> first has \<^verbatim>\<open>copy_zeropad\<close> write the padded
  copy of the activations into the result buffer, then invokes \<^verbatim>\<open>convolution_layer_hw\<close>
  with the result buffer as its input and the activations buffer as its output, and
  returns the activations buffer; otherwise (in particular when the padding is 0) it
  invokes \<^verbatim>\<open>convolution_layer_hw\<close> from the activations buffer into the result buffer and
  returns the result buffer. \<^verbatim>\<open>convolution_layer_hw\<close> in turn hands its input and output
  buffers, in this order, to the convolution kernel, between the DMA transfers.
\<close>

theorem convolution_layer_buffers:
  assumes "0 \<le> lnum" and "lnum < int (length ls)"
  shows "(c_padding (ls ! nat lnum) > 0 \<longrightarrow>
            convolution_layer E activations wts ls lnum result s =
              (activations,
               convolution_layer_hw E result wts ls lnum activations
                 (copy_zeropad E activations (ls ! nat lnum)
                    ((field_size (ls ! nat lnum) - 1) sdiv 2) result s))) \<and>
         (\<not> c_padding (ls ! nat lnum) > 0 \<longrightarrow>
            convolution_layer E activations wts ls lnum result s =
              (result, convolution_layer_hw E activations wts ls lnum result s)) \<and>
         convolution_layer_hw E activations wts ls lnum result s =
           store_output_activations_dma E result lnum ls
             (convolution2d_smiv E activations wts (ls ! nat lnum) result
                (grab_input_activations_dma E activations lnum ls
                   (grab_matrix_dma E wts lnum ls s)))"
  by (simp add: convolution_layer_def convolution_layer_hw_def Let_def)

theorem convolution_layer_buffers_witness:
  "(0 :: int) \<le> 0 \<and> (0 :: int) < int (length [padded_layer, plain_layer]) \<and>
   convolution_layer trace_externs 0 100 [padded_layer, plain_layer] 0 200 [] =
     (0, [(''copy_zeropad'', 0, 200), (''grab_matrix_dma'', 100, 100),
          (''grab_input_activations_dma'', 200, 200), (''convolution2d_smiv'', 200, 0),
          (''store_output_activations_dma'', 0, 0)])"
proof -
  have h1: "(0 :: int) \<le> 0" and h2: "(0 :: int) < int (length [padded_layer, plain_layer])"
    by simp_all
  have pad: "c_padding ([padded_layer, plain_layer] ! nat 0) > 0"
    by (simp add: padded_layer_def plain_layer_def)
  note A = convolution_layer_buffers [OF h1 h2, where E = trace_externs and activations = 0
      and wts = 100 and result = 200 and s = "[]", THEN conjunct1, rule_format, OF pad]
  note B = convolution_layer_buffers [OF h1 h2, where E = trace_externs and activations = 200
      and wts = 100 and result = 0, THEN conjunct2, THEN conjunct2]
  show ?thesis
    unfolding A B using h1 h2 by (simp add: trace_externs_def)
qed

subsection \<open>The forward pass\<close>

lemma nnet_fwd_outer_inv:
  fixes holder :: "'s \<Rightarrow> ptr"
  assumes rl: "\<forall>a w ls l r t s. fst (rl a w ls l r t s) \<in> {a, r} \<and>
                 holder (snd (rl a w ls l r t s)) = fst (rl a w ls l r t s)"
    and init: "holder s = d activations"
  shows "fst (nnet_fwd_outer rl activations wts result network t n s) \<in> {d activations, d result} \<and>
         holder (snd (nnet_fwd_outer rl activations wts result network t n s)) =
           fst (nnet_fwd_outer rl activations wts result network t n s)"
proof (induction n)
  case 0
  then show ?case using init by (simp add: nnet_fwd_outer_def)
next
  case (Suc n)
  let ?st = "nnet_fwd_outer rl activations wts result network t n s"
  have step: "nnet_fwd_outer rl activations wts result network t (Suc n) s =
      nnet_fwd_outer_body rl activations wts result network t n ?st"
    by (simp add: nnet_fwd_outer_def)
  show ?case
  proof (cases "fst ?st = d result")
    case True
    then have e: "nnet_fwd_outer rl activations wts result network t (Suc n) s =
        rl (d result) (d wts) (layers network) (int n) (d activations) t (snd ?st)"
      by (simp add: step nnet_fwd_outer_body_def run_layer_def Let_def)
    show ?thesis unfolding e
      using rl[rule_format, of "d result" "d wts" "layers network" "int n" "d activations" t "snd ?st"]
      by auto
  next
    case False
    then have e: "nnet_fwd_outer rl activations wts result network t (Suc n) s =
        rl (d activations) (d wts) (layers network) (int n) (d result) t (snd ?st)"
      by (simp add: step nnet_fwd_outer_body_def run_layer_def Let_def)
    show ?thesis unfolding e
      using rl[rule_format, of "d activations" "d wts" "layers network" "int n" "d result" t "snd ?st"]
      by auto
  qed
qed

text \<open>
  Claim C7. \<^verbatim>\<open>run_layer\<close> is handed an input buffer and a buffer for the result. Let every
  call return one of these two, namely the one into which it wrote the layer's output
  (\<open>holder\<close> reads off the memory state which buffer holds the activations produced
  last), and let the initial activations be in \<^verbatim>\<open>activations.d\<close>. Then:

  \<^item> after any number \<open>n\<close> of iterations of the layer loop, \<^verbatim>\<open>result_loc\<close> is the buffer
    holding the most recent activations, and iteration \<open>n\<close> is the call of \<^verbatim>\<open>run_layer\<close>
    for layer \<open>n\<close> that reads from that buffer and is given the other of the two buffers
    for its result;

  \<^item> for a network of at least one layer \<^verbatim>\<open>nnet_fwd\<close> returns; the layer array it leaves is
    the one it was given with the \<^verbatim>\<open>result_in_temp\<close> flag of the last layer set, and that
    flag is true exactly when the last layer's output is in \<^verbatim>\<open>result.d\<close>;

  \<^item> the memory \<^verbatim>\<open>nnet_fwd\<close> leaves is the memory after the loop followed by two calls of
    \<^verbatim>\<open>dmaStore\<close>: the first stores the buffer holding the last layer's output, the second
    the layer array.
\<close>

theorem nnet_fwd_tracks_result_buffer:
  fixes holder :: "'s \<Rightarrow> ptr"
  assumes rl: "\<forall>a w ls l r t s. fst (rl a w ls l r t s) \<in> {a, r} \<and>
                 holder (snd (rl a w ls l r t s)) = fst (rl a w ls l r t s)"
    and init: "holder s = d activations"
    and depth: "1 \<le> depth network" "depth network \<le> int (length (layers network))"
  shows "(\<forall>n. fst (nnet_fwd_outer rl activations wts result network t n s) =
               holder (snd (nnet_fwd_outer rl activations wts result network t n s)) \<and>
             nnet_fwd_outer rl activations wts result network t (Suc n) s =
               rl (holder (snd (nnet_fwd_outer rl activations wts result network t n s)))
                  (d wts) (layers network) (int n)
                  (if holder (snd (nnet_fwd_outer rl activations wts result network t n s)) = d result
                   then d activations else d result)
                  t (snd (nnet_fwd_outer rl activations wts result network t n s))) \<and>
         (\<exists>res. nnet_fwd rl dmaStore activations wts result network t s = Some res \<and>
            out_loop_state res =
              snd (nnet_fwd_outer rl activations wts result network t (nat (depth network)) s) \<and>
            out_result_loc res = holder (out_loop_state res) \<and>
            out_layers res = (layers network)[nat (depth network - 1) :=
                (layers network ! nat (depth network - 1))
                  \<lparr>result_in_temp := (holder (out_loop_state res) = d result)\<rparr>] \<and>
            (result_in_temp (out_layers res ! nat (depth network - 1)) \<longleftrightarrow>
               holder (out_loop_state res) = d result) \<and>
            out_store_src res = holder (out_loop_state res) \<and>
            out_state res =
              dmaStore (Layers (out_layers res))
                (dmaStore (Buf (holder (out_loop_state res))) (out_loop_state res)))"
proof -
  note I = nnet_fwd_outer_inv[OF rl init, of wts result network t]
  let ?F = "\<lambda>n. nnet_fwd_outer rl activations wts result network t n s"
  let ?st = "?F (nat (depth network))"
  have last: "nat (depth network - 1) < length (layers network)"
    using depth by linarith
  have loc: "fst (?F n) = d activations \<or> fst (?F n) = d result"
    and hold: "holder (snd (?F n)) = fst (?F n)" for n
    using I[of n] by simp_all
  have step: "?F (Suc n) =
      rl (holder (snd (?F n))) (d wts) (layers network) (int n)
         (if holder (snd (?F n)) = d result then d activations else d result) t (snd (?F n))" for n
  proof -
    have "?F (Suc n) = nnet_fwd_outer_body rl activations wts result network t n (?F n)"
      by (simp add: nnet_fwd_outer_def)
    then show ?thesis
      using loc[of n] unfolding hold[of n]
      by (auto simp: nnet_fwd_outer_body_def run_layer_def Let_def)
  qed
  have loop: "\<forall>n. fst (?F n) = holder (snd (?F n)) \<and>
      ?F (Suc n) =
      rl (holder (snd (?F n))) (d wts) (layers network) (int n)
         (if holder (snd (?F n)) = d result then d activations else d result) t (snd (?F n))"
    using hold step by simp
  define ls where "ls = (layers network)[nat (depth network - 1) :=
      (layers network ! nat (depth network - 1))\<lparr>result_in_temp := (fst ?st = d result)\<rparr>]"
  define src where "src = (if fst ?st = d result then d result else d activations)"
  define res where "res = \<lparr>out_layers = ls, out_result_loc = fst ?st, out_store_src = src,
      out_loop_state = snd ?st,
      out_state = dmaStore (Layers ls) (dmaStore (Buf src) (snd ?st))\<rparr>"
  have run: "nnet_fwd rl dmaStore activations wts result network t s = Some res"
    using depth by (simp add: nnet_fwd_def Let_def res_def ls_def src_def)
  have srcv: "src = holder (snd ?st)"
    using loc[of "nat (depth network)"] hold[of "nat (depth network)"] by (auto simp: src_def)
  have r1: "out_loop_state res = snd ?st" by (simp add: res_def)
  have r2: "out_result_loc res = holder (out_loop_state res)"
    using hold[of "nat (depth network)"] by (simp add: res_def)
  have r3: "out_layers res = (layers network)[nat (depth network - 1) :=
                (layers network ! nat (depth network - 1))
                  \<lparr>result_in_temp := (holder (out_loop_state res) = d result)\<rparr>]"
    using hold[of "nat (depth network)"] by (simp add: res_def ls_def)
  have r4: "result_in_temp (out_layers res ! nat (depth network - 1)) \<longleftrightarrow>
      holder (out_loop_state res) = d result"
    using last hold[of "nat (depth network)"] by (simp add: res_def ls_def)
  have r5: "out_store_src res = holder (out_loop_state res)"
    using srcv by (simp add: res_def)
  have r6: "out_state res =
      dmaStore (Layers (out_layers res))
        (dmaStore (Buf (holder (out_loop_state res))) (out_loop_state res))"
    using srcv by (simp add: res_def)
  show ?thesis
  proof (intro conjI exI[of _ res])
    show "\<forall>n. fst (?F n) = holder (snd (?F n)) \<and>
      ?F (Suc n) =
      rl (holder (snd (?F n))) (d wts) (layers network) (int n)
         (if holder (snd (?F n)) = d result then d activations else d result) t (snd (?F n))"
      by (rule loop)
  qed (rule run r1 r2 r3 r4 r5 r6)+
qed

theorem nnet_fwd_tracks_result_buffer_witness:
  "(\<forall>a w ls l r t s. fst (logging_run_layer a w ls l r t s) \<in> {a, r} \<and>
       fst (snd (logging_run_layer a w ls l r t s)) = fst (logging_run_layer a w ls l r t s)) \<and>
   fst ((0, [], []) :: fwd_log) = d \<lparr>d = 0, farray_size = 24\<rparr> \<and>
   1 \<le> depth three_layers \<and> depth three_layers \<le> int (length (layers three_layers)) \<and>
   (\<exists>res. nnet_fwd logging_run_layer logging_dmaStore \<lparr>d = 0, farray_size = 24\<rparr>
             \<lparr>d = 100, farray_size = 24\<rparr> \<lparr>d = 200, farray_size = 24\<rparr> three_layers 300
             (0, [], [])
           = Some res \<and>
          result_in_temp (out_layers res ! 2) \<and>
          out_state res =
            (200, [(0, 0, 200), (0, 1, 200), (200, 2, 0)],
             [Buf 200,
              Layers [padded_layer, plain_layer, padded_layer\<lparr>result_in_temp := True\<rparr>]]))"
proof -
  have h1: "\<forall>a w ls l r t s. fst (logging_run_layer a w ls l r t s) \<in> {a, r} \<and>
       fst (snd (logging_run_layer a w ls l r t s)) = fst (logging_run_layer a w ls l r t s)"
    by (simp add: logging_run_layer_def Let_def)
  have h2: "fst ((0, [], []) :: fwd_log) = d \<lparr>d = 0, farray_size = 24\<rparr>" by simp
  have h3: "1 \<le> depth three_layers"
    and h4: "depth three_layers \<le> int (length (layers three_layers))"
    by (simp_all add: three_layers_def)
  have loop: "snd (nnet_fwd_outer logging_run_layer \<lparr>d = 0, farray_size = 24\<rparr>
             \<lparr>d = 100, farray_size = 24\<rparr> \<lparr>d = 200, farray_size = 24\<rparr> three_layers 300
             (nat (depth three_layers)) (0, [], [])) =
             (200, [(0, 0, 200), (0, 1, 200), (200, 2, 0)], [])"
    by (simp add: nnet_fwd_outer_def nnet_fwd_outer_body_def run_layer_def
        logging_run_layer_def three_layers_def padded_layer_def plain_layer_def
        numeral_3_eq_3 Let_def)
  from nnet_fwd_tracks_result_buffer [OF h1 h2 h3 h4, where dmaStore = logging_dmaStore
      and wts = "\<lparr>d = 100, farray_size = 24\<rparr>"
      and result = "\<lparr>d = 200, farray_size = 24\<rparr>" and t = 300]
  obtain res where res:
    "nnet_fwd logging_run_layer logging_dmaStore \<lparr>d = 0, farray_size = 24\<rparr>
       \<lparr>d = 100, farray_size = 24\<rparr> \<lparr>d = 200, farray_size = 24\<rparr> three_layers 300
       (0, [], []) = Some res"
    "out_loop_state res = snd (nnet_fwd_outer logging_run_layer \<lparr>d = 0, farray_size = 24\<rparr>
       \<lparr>d = 100, farray_size = 24\<rparr> \<lparr>d = 200, farray_size = 24\<rparr> three_layers 300
       (nat (depth three_layers)) (0, [], []))"
    "out_layers res = (layers three_layers)[nat (depth three_layers - 1) :=
                (layers three_layers ! nat (depth three_layers - 1))
                  \<lparr>result_in_temp := (fst (out_loop_state res) = d \<lparr>d = 200, farray_size = 24\<rparr>)\<rparr>]"
    "out_state res =
      logging_dmaStore (Layers (out_layers res))
        (logging_dmaStore (Buf (fst (out_loop_state res))) (out_loop_state res))"
    by blast
  have st: "out_loop_state res = (200, [(0, 0, 200), (0, 1, 200), (200, 2, 0)], [])"
    using res(2) loop by simp
  have ls: "out_layers res = [padded_layer, plain_layer, padded_layer\<lparr>result_in_temp := True\<rparr>]"
    unfolding res(3) st by (simp add: three_layers_def numeral_3_eq_3)
  have "result_in_temp (out_layers res ! 2)"
    unfolding ls by simp
  moreover have "out_state res =
            (200, [(0, 0, 200), (0, 1, 200), (200, 2, 0)],
             [Buf 200,
              Layers [padded_layer, plain_layer, padded_layer\<lparr>result_in_temp := True\<rparr>]])"
    unfolding res(4) ls st by (simp add: logging_dmaStore_def)
  ultimately show ?thesis using res(1) h1 h2 h3 h4 by blast
qed

subsection \<open>The operator-graph scheduler\<close>

lemma front_inserter_rev: "front_inserter written = rev written"
proof -
  have "fold (\<lambda>v l. v # l) xs acc = rev xs @ acc" for xs acc :: "vertex list"
    by (induction xs arbitrary: acc) simp_all
  then show ?thesis by (simp add: front_inserter_def)
qed

lemma position_less_iff: "position xs v < length xs \<longleftrightarrow> v \<in> set xs"
proof (induction xs)
  case Nil
  then show ?case by (simp add: position_def)
next
  case (Cons x xs)
  then show ?case by (auto simp: position_def)
qed

lemma position_rev:
  "distinct xs \<Longrightarrow> v \<in> set xs \<Longrightarrow> position (rev xs) v = length xs - Suc (position xs v)"
proof (induction xs)
  case Nil
  then show ?case by simp
next
  case (Cons x xs)
  show ?case
  proof (cases "v = x")
    case True
    with Cons.prems have "y \<in> set (rev xs) \<Longrightarrow> y \<noteq> v" for y by auto
    then have "takeWhile (\<lambda>y. y \<noteq> v) (rev xs @ [x]) = rev xs @ takeWhile (\<lambda>y. y \<noteq> v) [x]"
      by (rule takeWhile_append2)
    with True show ?thesis by (simp add: position_def)
  next
    case False
    with Cons.prems have in_xs: "v \<in> set xs" and dist: "distinct xs" by auto
    then have "\<exists>y\<in>set (rev xs). \<not> y \<noteq> v" by auto
    then have "takeWhile (\<lambda>y. y \<noteq> v) (rev xs @ [x]) = takeWhile (\<lambda>y. y \<noteq> v) (rev xs)"
      by (simp add: takeWhile_append1)
    then have "position (rev (x # xs)) v = position (rev xs) v"
      by (simp add: position_def)
    also have "\<dots> = length xs - Suc (position xs v)"
      using Cons.IH dist in_xs by simp
    also have "\<dots> = length (x # xs) - Suc (position (x # xs) v)"
      using False by (simp add: position_def)
    finally show ?thesis .
  qed
qed

lemma runNetwork_fold:
  "fold (runNetwork_body run getOutput) vs st =
     \<lparr>output_var = (if vs = [] then output_var st
                     else Some (getOutput (last vs) 0 (fold run vs (mem st)))),
      mem = fold run vs (mem st),
      ran = ran st @ vs\<rparr>"
proof (induction vs arbitrary: st)
  case Nil
  then show ?case by simp
next
  case (Cons v vs)
  show ?case
    unfolding fold_simps Cons.IH
    by (simp add: runNetwork_body_def Let_def)
qed

text \<open>
  Claim C9. When \<^verbatim>\<open>boost::topological_sort\<close> writes every vertex of the graph exactly
  once, in reverse topological order, \<^verbatim>\<open>runNetwork\<close> calls \<^verbatim>\<open>run\<close> exactly once for
  every vertex of the graph, in an order in which the producer of every edge runs before
  its consumer; the memory it leaves is that of these runs in this order; and, the graph
  having at least one vertex, it returns output 0 of the operator that ran last, read in
  the final memory.
\<close>

theorem runNetwork_dependency_order:
  assumes "reverse_topological g (topological_sort g)"
  shows "distinct (ran (runNetwork topological_sort run getOutput g s)) \<and>
         set (ran (runNetwork topological_sort run getOutput g s)) = set (vertex_list g) \<and>
         dependency_order g (ran (runNetwork topological_sort run getOutput g s)) \<and>
         mem (runNetwork topological_sort run getOutput g s) =
           fold run (ran (runNetwork topological_sort run getOutput g s)) s \<and>
         (vertex_list g \<noteq> [] \<longrightarrow>
            output_var (runNetwork topological_sort run getOutput g s) =
              Some (getOutput (last (ran (runNetwork topological_sort run getOutput g s))) 0
                      (mem (runNetwork topological_sort run getOutput g s))))"
proof -
  let ?w = "topological_sort g"
  have R: "runNetwork topological_sort run getOutput g s =
      \<lparr>output_var = (if rev ?w = [] then None
                      else Some (getOutput (last (rev ?w)) 0 (fold run (rev ?w) s))),
       mem = fold run (rev ?w) s, ran = rev ?w\<rparr>"
    by (simp add: runNetwork_def front_inserter_rev runNetwork_fold Let_def)
  from assms have dist: "distinct ?w" and verts: "set ?w = set (vertex_list g)"
    and edges: "\<And>e. e \<in> set (edge_list g) \<Longrightarrow>
        fst e \<in> set ?w \<and> snd e \<in> set ?w \<and> position ?w (snd e) < position ?w (fst e)"
    by (auto simp: reverse_topological_def list_all_iff)
  have order: "dependency_order g (rev ?w)"
    unfolding dependency_order_def list_all_iff
  proof
    fix e assume "e \<in> set (edge_list g)"
    from edges[OF this] have u: "fst e \<in> set ?w" and v: "snd e \<in> set ?w"
      and lt: "position ?w (snd e) < position ?w (fst e)" by simp_all
    from u have "position ?w (fst e) < length ?w" by (simp add: position_less_iff)
    with lt show "position (rev ?w) (fst e) < position (rev ?w) (snd e)"
      by (simp add: position_rev[OF dist u] position_rev[OF dist v])
  qed
  have ne: "vertex_list g \<noteq> [] \<Longrightarrow> rev ?w \<noteq> []"
    using verts by auto
  show ?thesis
    unfolding R using dist verts order ne by simp
qed

theorem runNetwork_dependency_order_witness:
  "reverse_topological chain_graph ((\<lambda>g. [2, 1, 0]) chain_graph) \<and>
   ran (runNetwork (\<lambda>g. [2, 1, 0]) (\<lambda>v s. s @ [v]) (\<lambda>v i s. (v, i, s)) chain_graph []) = [0, 1, 2] \<and>
   dependency_order chain_graph
     (ran (runNetwork (\<lambda>g. [2, 1, 0]) (\<lambda>v s. s @ [v]) (\<lambda>v i s. (v, i, s)) chain_graph [])) \<and>
   output_var (runNetwork (\<lambda>g. [2, 1, 0]) (\<lambda>v s. s @ [v]) (\<lambda>v i s. (v, i, s)) chain_graph [])
     = Some (2, 0, [0, 1, 2])"
proof -
  have h: "reverse_topological chain_graph ((\<lambda>g. [2, 1, 0]) chain_graph)"
    by (simp add: reverse_topological_def chain_graph_def position_def insert_commute)
  have ne: "vertex_list chain_graph \<noteq> []" by (simp add: chain_graph_def)
  have r: "ran (runNetwork (\<lambda>g. [2, 1, 0]) (\<lambda>v s. s @ [v]) (\<lambda>v i s. (v, i, s)) chain_graph [])
      = [0, 1, 2]"
    and m: "mem (runNetwork (\<lambda>g. [2, 1, 0]) (\<lambda>v s. s @ [v]) (\<lambda>v i s. (v, i, s)) chain_graph [])
      = [0, 1, 2]"
    by (simp_all add: runNetwork_def front_inserter_def runNetwork_body_def Let_def)
  note T = runNetwork_dependency_order [OF h, where run = "\<lambda>v s. s @ [v]"
      and getOutput = "\<lambda>v i s. (v, i, s)" and s = "[]"]
  from T have o: "dependency_order chain_graph
     (ran (runNetwork (\<lambda>g. [2, 1, 0]) (\<lambda>v s. s @ [v]) (\<lambda>v i s. (v, i, s)) chain_graph []))"
    by blast
  from T ne have "output_var (runNetwork (\<lambda>g. [2, 1, 0]) (\<lambda>v s. s @ [v]) (\<lambda>v i s. (v, i, s)) chain_graph [])
     = Some ((\<lambda>v i s. (v, i, s))
         (last (ran (runNetwork (\<lambda>g. [2, 1, 0]) (\<lambda>v s. s @ [v]) (\<lambda>v i s. (v, i, s)) chain_graph []))) 0
         (mem (runNetwork (\<lambda>g. [2, 1, 0]) (\<lambda>v s. s @ [v]) (\<lambda>v i s. (v, i, s)) chain_graph [])))"
    by blast
  then have "output_var (runNetwork (\<lambda>g. [2, 1, 0]) (\<lambda>v s. s @ [v]) (\<lambda>v i s. (v, i, s)) chain_graph [])
     = Some (2, 0, [0, 1, 2])"
    unfolding r m by simp
  with h r o show ?thesis by blast
qed


subsection \<open>Conversions between C integers\<close>

text \<open>
  An \<^verbatim>\<open>int\<close> that is converted to \<^verbatim>\<open>unsigned\<close> and back keeps its value while it is
  within range, and C's truncating division agrees with \<open>div\<close> and \<open>mod\<close> on operands
  that are not negative.
\<close>

lemma sint_word_of_int_32:
  "- (2 ^ 31) \<le> x \<Longrightarrow> x < 2 ^ 31 \<Longrightarrow> sint (word_of_int x :: 32 word) = x"
  by (simp add: signed_of_int signed_take_bit_int_eq_self)

lemma unat_word_of_int_32:
  "0 \<le> x \<Longrightarrow> x < 2 ^ 32 \<Longrightarrow> unat (word_of_int x :: 32 word) = nat x"
  by (simp add: unsigned_of_int take_bit_int_eq_self)

lemma sdiv_nonneg: "0 \<le> a \<Longrightarrow> 0 \<le> b \<Longrightarrow> a sdiv b = a div (b :: int)"
  by (auto simp: signed_divide_int_def sgn_if)

lemma smod_nonneg: "0 \<le> a \<Longrightarrow> 0 \<le> b \<Longrightarrow> a smod b = a mod (b :: int)"
  by (auto simp: signed_modulo_int_def sgn_if)

subsection \<open>The schedule table and unsupported strides\<close>

text \<open>
  With \<^verbatim>\<open>max_psums_per_act\<close> equal to 0 every column group is scheduled for zero output
  pixels: nothing is committed, \<^verbatim>\<open>out_col\<close> stays 0, and with a positive stride the row
  loop ends.
\<close>

lemma c_min_zero: "c_min (0 :: 32 word) x = 0"
  by (simp add: c_min_def word_gt_0)

lemma schedule_zero:
  "max_psums_per_act L = 0 \<Longrightarrow>
   compute_schedule L out_col = \<lparr>dp0_iters = 0, dp1_iters = 0, total_outpx = 0\<rparr>"
  by (simp add: compute_schedule_def Let_def c_min_zero)

lemma conv2d_col_zero:
  assumes "max_psums_per_act L = 0"
  shows "conv2d_col L a kernels img kern chan result in_row out_row in_col (0, h) = (0, h)"
  by (simp add: conv2d_col_def Let_def schedule_zero[OF assms])

lemma conv2d_col_fold_zero:
  assumes "max_psums_per_act L = 0"
  shows "fold (conv2d_col L a kernels img kern chan result in_row out_row) xs (0, h) = (0, h)"
  by (induction xs) (simp_all add: conv2d_col_zero[OF assms])

lemma conv2d_row_zero:
  assumes "max_psums_per_act L = 0" and "0 < k_stride L"
  shows "conv2d_row L a kernels img kern chan result in_row out_row h = Some h"
proof (induction "nat (end_row L - in_row)" arbitrary: in_row out_row rule: less_induct)
  case less
  show ?case
  proof (cases "in_row < end_row L")
    case True
    then have "nat (end_row L - (in_row + k_stride L)) < nat (end_row L - in_row)"
      using assms(2) by linarith
    from less[OF this] show ?thesis
      using True by (subst conv2d_row.simps) (simp add: conv2d_col_fold_zero[OF assms(1)])
  next
    case False
    then show ?thesis by (subst conv2d_row.simps) simp
  qed
qed

lemma unsupported_stride_returns:
  assumes "k_stride L \<noteq> 1" "k_stride L \<noteq> 2" "k_stride L \<noteq> 4" "0 < k_stride L"
  shows "convolution2d_smiv_1kernel_1channel_simd_fxp a kernels img kern chan L result h = Some h"
proof -
  have "max_psums_per_act L = 0" using assms(1-3) by (simp add: max_psums_per_act_def)
  from conv2d_row_zero[OF this assms(4)] show ?thesis
    by (simp add: convolution2d_smiv_1kernel_1channel_simd_fxp_def)
qed

text \<open>
  Claim C3, as amended. \<^verbatim>\<open>max_psums_per_act\<close> follows the table: for stride 1 it is
  \<^verbatim>\<open>DATAPATH_WIDTH\<close> in double-throughput mode and twice that in single-throughput
  mode; for stride 2 it is half of \<^verbatim>\<open>DATAPATH_WIDTH\<close> in double and \<^verbatim>\<open>DATAPATH_WIDTH\<close> in
  single mode; for stride 4 it is half of \<^verbatim>\<open>DATAPATH_WIDTH\<close>. For every other stride it
  is 0, and there is no assertion: a call with such a stride, if the stride is positive,
  returns normally and leaves the whole store as it was.
\<close>

theorem max_psums_per_act_table:
  "(k_stride L = 1 \<longrightarrow> max_psums_per_act L =
       word_of_nat (if double_tp L then DATAPATH_WIDTH else DATAPATH_WIDTH * 2)) \<and>
   (k_stride L = 2 \<longrightarrow> max_psums_per_act L =
       word_of_nat (if double_tp L then DATAPATH_WIDTH div 2 else DATAPATH_WIDTH)) \<and>
   (k_stride L = 4 \<longrightarrow> max_psums_per_act L = word_of_nat (DATAPATH_WIDTH div 2)) \<and>
   (k_stride L \<noteq> 1 \<and> k_stride L \<noteq> 2 \<and> k_stride L \<noteq> 4 \<longrightarrow>
       max_psums_per_act L = 0 \<and>
       (0 < k_stride L \<longrightarrow>
          convolution2d_smiv_1kernel_1channel_simd_fxp a kernels img kern chan L result h
            = Some h))"
  using unsupported_stride_returns[of L a kernels img kern chan result h]
  by (simp add: max_psums_per_act_def)

theorem max_psums_per_act_table_witness:
  "k_stride layer_stride3 \<noteq> 1 \<and> k_stride layer_stride3 \<noteq> 2 \<and> k_stride layer_stride3 \<noteq> 4 \<and>
   0 < k_stride layer_stride3 \<and> max_psums_per_act layer_stride3 = 0 \<and>
   convolution2d_smiv_1kernel_1channel_simd_fxp 0 100 0 0 0 layer_stride3 200 (\<lambda>x. 0)
     = Some (\<lambda>x. 0) \<and>
   k_stride plain_layer = 1 \<and> max_psums_per_act plain_layer = 4"
proof -
  have s: "k_stride layer_stride3 \<noteq> 1 \<and> k_stride layer_stride3 \<noteq> 2 \<and> k_stride layer_stride3 \<noteq> 4"
    and p: "0 < k_stride layer_stride3"
    by (simp_all add: k_stride_def layer_stride3_def)
  have s1: "k_stride plain_layer = 1" by (simp add: k_stride_def plain_layer_def)
  have tp: "double_tp plain_layer"
    by (simp add: double_tp_def k_width_def plain_layer_def DATAPATH_WIDTH_def)
  note T = max_psums_per_act_table [where L = layer_stride3 and a = 0 and kernels = 100
      and img = 0 and kern = 0 and chan = 0 and result = 200 and h = "\<lambda>x. 0"]
  note U = max_psums_per_act_table [where L = plain_layer, THEN conjunct1, rule_format, OF s1]
  from T s p have "max_psums_per_act layer_stride3 = 0"
    and "convolution2d_smiv_1kernel_1channel_simd_fxp 0 100 0 0 0 layer_stride3 200 (\<lambda>x. 0)
     = Some (\<lambda>x. 0)"
    by blast+
  moreover from U tp have "max_psums_per_act plain_layer = 4"
    by (simp add: DATAPATH_WIDTH_def)
  ultimately show ?thesis using s p s1 by blast
qed

text \<open>
  The claim as it stands asks that a stride outside 1, 2 and 4 makes the call fail. With
  stride 3 the call returns, with every float of the store unchanged.
\<close>

theorem unsupported_stride_counterexample:
  "k_stride layer_stride3 = 3 \<and> max_psums_per_act layer_stride3 = 0 \<and>
   convolution2d_smiv_1kernel_1channel_simd_fxp 0 100 0 0 0 layer_stride3 200 stale_heap
     = Some stale_heap"
proof -
  have s: "k_stride layer_stride3 = 3" by (simp add: k_stride_def layer_stride3_def)
  then have "max_psums_per_act layer_stride3 = 0" by (simp add: max_psums_per_act_def)
  moreover have "convolution2d_smiv_1kernel_1channel_simd_fxp 0 100 0 0 0 layer_stride3 200
      stale_heap = Some stale_heap"
    by (rule unsupported_stride_returns) (simp_all add: s)
  ultimately show ?thesis using s by simp
qed

subsection \<open>The boundary case\<close>

lemma FRAC_CEIL_nonneg:
  "0 \<le> A \<Longrightarrow> FRAC_CEIL A 8 = A div 8 + (if A mod 8 \<noteq> 0 then 1 else 0)"
  by (simp add: FRAC_CEIL_def sdiv_nonneg smod_nonneg)

lemma fetches_facts:
  assumes "input_shape_ok L"
  defines "f \<equiv> FRAC_CEIL (a_width L) (int VECTOR_SIZE)"
  shows "0 \<le> f" and "8 * f \<le> a_padded_width L" and "f < 2 ^ 31"
    and "end_col_marker L = f - 1"
    and "end_col L = (if has_boundary_case L then f else f - 1)"
proof -
  from assms(1) have a0: "0 \<le> a_width L" and pad: "a_width L \<le> a_padded_width L"
    and lim: "a_padded_width L < 2 ^ 31" and al: "a_padded_width L mod 8 = 0"
    by (auto simp: input_shape_ok_def a_padded_width_def VECTOR_SIZE_def)
  have fe: "f = a_width L div 8 + (if a_width L mod 8 \<noteq> 0 then 1 else 0)"
    unfolding f_def VECTOR_SIZE_def using FRAC_CEIL_nonneg[OF a0] by simp
  show f0: "0 \<le> f" unfolding fe using a0 by (simp add: pos_imp_zdiv_nonneg_iff)
  show f8: "8 * f \<le> a_padded_width L" unfolding fe using pad al by presburger
  show flim: "f < 2 ^ 31" using f8 lim f0 by linarith
  have w: "input_fetches_per_row L = word_of_int f"
    by (simp add: input_fetches_per_row_def f_def)
  have m1: "sint (word_of_int f - 1 :: 32 word) = f - 1"
  proof -
    have "(word_of_int f - 1 :: 32 word) = word_of_int (f - 1)" by simp
    moreover have "sint (word_of_int (f - 1) :: 32 word) = f - 1"
      using f0 flim by (intro sint_word_of_int_32) simp_all
    ultimately show ?thesis by (simp only:)
  qed
  have m0: "sint (word_of_int f :: 32 word) = f"
    using f0 flim by (intro sint_word_of_int_32) simp_all
  show "end_col_marker L = f - 1" by (simp add: end_col_marker_def w m1)
  show "end_col L = (if has_boundary_case L then f else f - 1)"
    by (simp add: end_col_def w m1 m0)
qed

lemma load_v8fp_cong:
  "(\<And>l. l < VECTOR_SIZE \<Longrightarrow> h' (lane_addr p v l) = h (lane_addr p v l)) \<Longrightarrow>
   load_v8fp h' p v = load_v8fp h p v"
  by (simp add: load_v8fp_def)

lemma input_lane_in_row:
  assumes ok: "input_shape_ok L" and c: "0 \<le> c"
    and cf: "c < FRAC_CEIL (a_width L) (int VECTOR_SIZE)" and l: "l < VECTOR_SIZE"
  shows "lane_addr a (vec_index_4d (k_height L) (a_height L) (a_padded_width L) img chan row c) l
           \<in> input_row L a img chan row"
proof -
  define W where "W = a_padded_width L"
  define R where "R = (img * k_height L + chan) * a_height L + row"
  from fetches_facts(2)[OF ok] cf have c8: "8 * c + 8 \<le> W" by (simp add: W_def)
  then have W0: "0 \<le> W" using c by linarith
  from ok have "W mod 8 = 0" by (simp add: input_shape_ok_def W_def VECTOR_SIZE_def)
  then have W8: "8 * (W div 8) = W" by presburger
  have "8 * (R * (W div 8) + c) = R * (8 * (W div 8)) + 8 * c" by (simp add: algebra_simps)
  then have addr: "lane_addr a (vec_index_4d (k_height L) (a_height L) W img chan row c) l
      = a + R * W + 8 * c + int l"
    using W0 by (simp add: lane_addr_def vec_index_4d_def VECTOR_SIZE_def sdiv_nonneg W8 R_def)
  have "a + R * W \<le> a + R * W + 8 * c + int l" using c by simp
  moreover have "a + R * W + 8 * c + int l < a + (R + 1) * W"
    using c8 l by (simp add: algebra_simps VECTOR_SIZE_def)
  ultimately show ?thesis
    unfolding input_row_def addr[unfolded W_def] by (simp add: R_def W_def)
qed

text \<open>
  Claim C4. The boundary flag is the comparison, in unsigned arithmetic, of
  \<^verbatim>\<open>result_width * k_stride\<close> with \<^verbatim>\<open>(input_fetches_per_row - 1) * VECTOR_SIZE\<close>, a
  function of the descriptor alone, computed before the loops. When the flag is set and
  \<^verbatim>\<open>in_col\<close> is \<^verbatim>\<open>input_fetches_per_row - 1\<close>, the shift register is loaded with the
  vector at \<^verbatim>\<open>in_col\<close> only and position 1 keeps its zeros. For a descriptor whose input
  rows are padded to a whole number of vectors, and any \<^verbatim>\<open>in_col\<close> the column loop
  visits, the loaded register depends on the store only through the padded input row it
  loads from: no activation load reads outside that row.
\<close>

theorem boundary_case_suppresses_load:
  assumes ok: "input_shape_ok L" and lo: "0 \<le> in_col" and hi: "in_col < end_col L"
  shows "(has_boundary_case L \<longleftrightarrow>
            (word_of_int (result_width L * k_stride L) :: 32 word)
              > (input_fetches_per_row L - 1) * word_of_nat VECTOR_SIZE) \<and>
         (has_boundary_case L \<and> in_col = sint (input_fetches_per_row L - 1) \<longrightarrow>
            load_activations L h a img chan row in_col =
              [load_v8fp h a
                 (vec_index_4d (k_height L) (a_height L) (a_padded_width L) img chan row in_col),
               v8fp_zero]) \<and>
         (\<forall>h'. (\<forall>x \<in> input_row L a img chan row. h' x = h x) \<longrightarrow>
            load_activations L h' a img chan row in_col =
              load_activations L h a img chan row in_col)"
proof (intro conjI allI impI)
  show "has_boundary_case L \<longleftrightarrow>
          (word_of_int (result_width L * k_stride L) :: 32 word)
            > (input_fetches_per_row L - 1) * word_of_nat VECTOR_SIZE"
    by (simp add: has_boundary_case_def last_input_pixel_start_col_def)
next
  assume "has_boundary_case L \<and> in_col = sint (input_fetches_per_row L - 1)"
  then show "load_activations L h a img chan row in_col =
      [load_v8fp h a
         (vec_index_4d (k_height L) (a_height L) (a_padded_width L) img chan row in_col),
       v8fp_zero]"
    by (simp add: load_activations_def end_col_marker_def Let_def)
next
  fix h' assume agree: "\<forall>x \<in> input_row L a img chan row. h' x = h x"
  define f where "f = FRAC_CEIL (a_width L) (int VECTOR_SIZE)"
  note F = fetches_facts[OF ok, folded f_def]
  have first: "in_col < f" using hi F(5) by (simp split: if_splits)
  have v0: "load_v8fp h' a
        (vec_index_4d (k_height L) (a_height L) (a_padded_width L) img chan row in_col)
      = load_v8fp h a
        (vec_index_4d (k_height L) (a_height L) (a_padded_width L) img chan row in_col)"
    using input_lane_in_row[OF ok lo first[unfolded f_def]] agree
    by (intro load_v8fp_cong) simp
  show "load_activations L h' a img chan row in_col =
      load_activations L h a img chan row in_col"
  proof (cases "has_boundary_case L \<and> in_col = end_col_marker L")
    case True
    then have "load_activations L hh a img chan row in_col =
        [load_v8fp hh a
           (vec_index_4d (k_height L) (a_height L) (a_padded_width L) img chan row in_col),
         v8fp_zero]" for hh
      by (simp add: load_activations_def Let_def del: One_nat_def)
    then show ?thesis by (simp only: v0)
  next
    case False
    then have second: "in_col + 1 < f"
      using hi F(4) F(5) by (auto split: if_splits)
    have "0 \<le> in_col + 1" using lo by simp
    from input_lane_in_row[OF ok this second[unfolded f_def]] agree
    have v1: "load_v8fp h' a
        (vec_index_4d (k_height L) (a_height L) (a_padded_width L) img chan row (in_col + 1))
      = load_v8fp h a
        (vec_index_4d (k_height L) (a_height L) (a_padded_width L) img chan row (in_col + 1))"
      by (intro load_v8fp_cong) simp
    from False show ?thesis by (simp add: load_activations_def Let_def v0 v1)
  qed
qed

theorem boundary_case_suppresses_load_witness:
  "input_shape_ok layer_stride2 \<and> (0 :: int) \<le> 1 \<and> 1 < end_col layer_stride2 \<and>
   has_boundary_case layer_stride2 \<and> 1 = sint (input_fetches_per_row layer_stride2 - 1) \<and>
   load_activations layer_stride2 (\<lambda>x. if 16 \<le> x \<and> x < 32 then stale_heap x else 9) 0 0 0 1 1 =
     load_activations layer_stride2 stale_heap 0 0 0 1 1 \<and>
   load_activations layer_stride2 stale_heap 0 0 0 1 1 =
     [load_v8fp stale_heap 0
        (vec_index_4d (k_height layer_stride2) (a_height layer_stride2)
           (a_padded_width layer_stride2) 0 0 1 1),
      v8fp_zero]"
proof -
  have ok: "input_shape_ok layer_stride2" by code_simp
  have lo: "(0 :: int) \<le> 1" by simp
  have hi: "1 < end_col layer_stride2" by code_simp
  have hb: "has_boundary_case layer_stride2" by code_simp
  have mk: "1 = sint (input_fetches_per_row layer_stride2 - 1)" by code_simp
  have agree: "\<forall>x \<in> input_row layer_stride2 0 0 0 1.
      (\<lambda>x. if 16 \<le> x \<and> x < 32 then stale_heap x else 9) x = stale_heap x"
    by (simp add: input_row_def layer_stride2_def k_height_def a_height_def a_padded_width_def
        a_width_def)
  note T = boundary_case_suppresses_load [OF ok lo hi, where h = stale_heap and a = 0
      and img = 0 and chan = 0 and row = 1]
  from T hb mk have "load_activations layer_stride2 stale_heap 0 0 0 1 1 =
     [load_v8fp stale_heap 0
        (vec_index_4d (k_height layer_stride2) (a_height layer_stride2)
           (a_padded_width layer_stride2) 0 0 1 1),
      v8fp_zero]"
    by blast
  moreover
  have "load_activations layer_stride2 (\<lambda>x. if 16 \<le> x \<and> x < 32 then stale_heap x else 9)
          0 0 0 1 1 = load_activations layer_stride2 stale_heap 0 0 0 1 1"
    by (rule T [THEN conjunct2, THEN conjunct2, THEN spec, THEN mp]) (rule agree)
  ultimately show ?thesis using ok lo hi hb mk by blast
qed

subsection \<open>The frame of the kernel driver\<close>

lemma c_min_le2: "c_min a b \<le> (b :: 32 word)"
  by (auto simp: c_min_def)

lemma total_outpx_le_remaining:
  "unat (total_outpx (compute_schedule L out_col))
     \<le> unat (word_of_int (result_width L - out_col) :: 32 word)"
proof -
  define r where "r = (word_of_int (result_width L - out_col) :: 32 word)"
  show ?thesis
  proof (cases "double_tp L")
    case False
    then show ?thesis
      by (simp add: compute_schedule_def Let_def c_min_le2 word_le_nat_alt[symmetric])
  next
    case True
    have hi: "unat (r div 2 + r mod 2) = unat r div 2 + unat r mod 2"
    proof -
      have "unat r div 2 + unat r mod 2 \<le> unat r" by presburger
      also have "\<dots> < 2 ^ 32" using unsigned_less[of r] by simp
      finally have "unat (r div 2) + unat (r mod 2) < 2 ^ LENGTH(32)"
        by (simp add: unat_div unat_mod)
      then show ?thesis
        by (simp add: unat_add_lem[THEN iffD1] unat_div unat_mod)
    qed
    have a: "unat (c_min (max_psums_per_act L) (r div 2 + r mod 2)) \<le> unat r div 2 + unat r mod 2"
      using c_min_le2[of "max_psums_per_act L" "r div 2 + r mod 2"]
      by (simp add: word_le_nat_alt hi)
    have b: "unat (c_min (max_psums_per_act L) (r div 2)) \<le> unat r div 2"
      using c_min_le2[of "max_psums_per_act L" "r div 2"]
      by (simp add: word_le_nat_alt unat_div)
    have "unat (c_min (max_psums_per_act L) (r div 2 + r mod 2)
                + c_min (max_psums_per_act L) (r div 2))
          \<le> unat (c_min (max_psums_per_act L) (r div 2 + r mod 2))
            + unat (c_min (max_psums_per_act L) (r div 2))"
      by (simp add: unat_word_ariths)
    also have "\<dots> \<le> unat r" using a b by presburger
    finally show ?thesis
      using True by (simp add: compute_schedule_def Let_def r_def)
  qed
qed

lemma conv2d_commit_apply:
  "conv2d_commit L result chan out_row out_col fp j h x =
     (if x = lane_addr result (vec_index_3d (result_height L) (result_padded_width L) chan
                out_row (out_col sdiv int VECTOR_SIZE)) j
      then fp ! j else h x)"
  by (simp add: conv2d_commit_def)

lemma commit_fold_frame:
  assumes "\<And>j. j < n \<Longrightarrow>
      lane_addr result (vec_index_3d (result_height L) (result_padded_width L) chan out_row
        (out_col sdiv int VECTOR_SIZE)) j \<noteq> x"
  shows "fold (conv2d_commit L result chan out_row out_col fp) [0..<n] h x = h x"
  using assms
proof (induction n)
  case 0
  then show ?case by simp
next
  case (Suc n)
  have "fold (conv2d_commit L result chan out_row out_col fp) [0..<Suc n] h x =
      conv2d_commit L result chan out_row out_col fp n
        (fold (conv2d_commit L result chan out_row out_col fp) [0..<n] h) x"
    by simp
  also have "\<dots> = fold (conv2d_commit L result chan out_row out_col fp) [0..<n] h x"
    using Suc.prems[of n] by (simp add: conv2d_commit_apply)
  also have "\<dots> = h x"
    using Suc.prems by (intro Suc.IH) simp
  finally show ?case .
qed

lemma total_outpx_fits:
  assumes "0 \<le> result_width L" and "result_width L < 2 ^ 31"
    and "0 \<le> out_col" and "out_col < result_width L \<or> out_col = 0"
  shows "out_col + int (unat (total_outpx (compute_schedule L out_col))) \<le> result_width L"
proof -
  have "0 \<le> result_width L - out_col" "result_width L - out_col < 2 ^ 32"
    using assms by auto
  then have "unat (word_of_int (result_width L - out_col) :: 32 word)
      = nat (result_width L - out_col)"
    by (rule unat_word_of_int_32)
  with total_outpx_le_remaining[of L out_col]
  have "unat (total_outpx (compute_schedule L out_col)) \<le> nat (result_width L - out_col)"
    by simp
  then show ?thesis using assms by linarith
qed

lemma result_lane_in_plane:
  assumes ok: "output_shape_ok L"
    and row: "0 \<le> out_row" "out_row < result_height L"
    and col: "0 \<le> out_col" "out_col + int n \<le> result_width L" and j: "j < n"
  shows "lane_addr result (vec_index_3d (result_height L) (result_padded_width L) chan out_row
           (out_col sdiv int VECTOR_SIZE)) j \<in> result_plane L result chan"
proof -
  define W where "W = result_padded_width L"
  define H where "H = result_height L"
  from ok have W0: "0 \<le> W" and Wm: "W mod 8 = 0" and rw: "result_width L \<le> W"
    by (auto simp: output_shape_ok_def W_def result_padded_width_def VECTOR_SIZE_def)
  have W8: "8 * (W div 8) = W" using Wm by presburger
  have c8: "8 * (out_col div 8) \<le> out_col" by presburger
  have c0: "0 \<le> 8 * (out_col div 8)" using col(1) by presburger
  have addr: "lane_addr result (vec_index_3d H W chan out_row (out_col sdiv int VECTOR_SIZE)) j
      = result + chan * (H * W) + out_row * W + 8 * (out_col div 8) + int j"
  proof -
    have "8 * ((chan * H + out_row) * (W div 8) + out_col div 8)
        = (chan * H + out_row) * (8 * (W div 8)) + 8 * (out_col div 8)"
      by (simp add: algebra_simps)
    also have "\<dots> = chan * (H * W) + out_row * W + 8 * (out_col div 8)"
      by (simp add: W8 algebra_simps)
    finally show ?thesis
      using W0 col(1)
      by (simp add: lane_addr_def vec_index_3d_def VECTOR_SIZE_def sdiv_nonneg)
  qed
  have inrow: "8 * (out_col div 8) + int j < W"
    using c8 col(2) j rw by linarith
  have rows_lo: "0 \<le> out_row * W" using row(1) W0 by simp
  have "out_row * W \<le> (H - 1) * W"
    using row(2) W0 by (intro mult_right_mono) (simp_all add: H_def)
  then have rows_hi: "out_row * W + W \<le> H * W"
    by (simp add: algebra_simps)
  have lo: "result + chan * (H * W) \<le> result + chan * (H * W) + out_row * W
      + 8 * (out_col div 8) + int j"
    using rows_lo c0 by linarith
  have hi: "result + chan * (H * W) + out_row * W + 8 * (out_col div 8) + int j
      < result + (chan + 1) * (H * W)"
  proof -
    have "out_row * W + 8 * (out_col div 8) + int j < H * W"
      using rows_hi inrow by linarith
    then show ?thesis by (simp add: algebra_simps)
  qed
  show ?thesis
    using lo hi unfolding result_plane_def addr[unfolded H_def W_def] H_def W_def
    by simp
qed

lemma conv2d_col_frame:
  assumes ok: "output_shape_ok L"
    and row: "0 \<le> out_row" "out_row < result_height L"
    and col: "0 \<le> fst st" "fst st < result_width L \<or> fst st = 0"
  shows "0 \<le> fst (conv2d_col L a kernels img kern chan result in_row out_row in_col st) \<and>
         (fst (conv2d_col L a kernels img kern chan result in_row out_row in_col st)
             < result_width L \<or>
          fst (conv2d_col L a kernels img kern chan result in_row out_row in_col st) = 0) \<and>
         (\<forall>x. x \<notin> result_plane L result chan \<longrightarrow>
            snd (conv2d_col L a kernels img kern chan result in_row out_row in_col st) x
              = snd st x)"
proof -
  define oc where "oc = fst st"
  define n where "n = unat (total_outpx (compute_schedule L oc))"
  from ok have rw: "0 \<le> result_width L" "result_width L < 2 ^ 31"
    by (auto simp: output_shape_ok_def result_padded_width_def)
  have fits: "oc + int n \<le> result_width L"
    unfolding n_def using total_outpx_fits[OF rw] col by (simp add: oc_def)
  have new: "sint (word_of_int oc + total_outpx (compute_schedule L oc) :: 32 word) = oc + int n"
  proof -
    have "word_of_int oc + total_outpx (compute_schedule L oc)
        = (word_of_int (oc + int n) :: 32 word)"
      by (simp add: n_def)
    moreover have "- (2 ^ 31) \<le> oc + int n" "oc + int n < 2 ^ 31"
      using fits rw col by (simp_all add: oc_def)
    then have "sint (word_of_int (oc + int n) :: 32 word) = oc + int n"
      by (rule sint_word_of_int_32)
    ultimately show ?thesis by (simp only:)
  qed
  have fst_eq: "fst (conv2d_col L a kernels img kern chan result in_row out_row in_col st)
      = (if oc + int n \<ge> result_width L then 0 else oc + int n)"
    by (simp add: conv2d_col_def Let_def new oc_def[symmetric])
  have snd_eq: "snd (conv2d_col L a kernels img kern chan result in_row out_row in_col st)
      = fold (conv2d_commit L result chan out_row oc
               (merge_psums_simd_fxp
                 (fst (fold (conv2d_kern_row L (snd st) a kernels img kern chan in_row
                         (int in_col) (compute_schedule L oc))
                        [0..<nat (end_kern L)] (v8fp_zero, v8fp_zero)))
                 (snd (fold (conv2d_kern_row L (snd st) a kernels img kern chan in_row
                         (int in_col) (compute_schedule L oc))
                        [0..<nat (end_kern L)] (v8fp_zero, v8fp_zero)))
                 (double_tp L)))
          [0..<n] (snd st)"
    by (simp add: conv2d_col_def Let_def oc_def[symmetric] n_def)
  have frame: "snd (conv2d_col L a kernels img kern chan result in_row out_row in_col st) x
      = snd st x" if "x \<notin> result_plane L result chan" for x
    unfolding snd_eq
  proof (rule commit_fold_frame)
    fix j assume "j < n"
    from result_lane_in_plane[OF ok row _ fits this, of result chan] col(1) that
    show "lane_addr result (vec_index_3d (result_height L) (result_padded_width L) chan
            out_row (oc sdiv int VECTOR_SIZE)) j \<noteq> x"
      by (auto simp: oc_def)
  qed
  show ?thesis
    unfolding fst_eq using frame col(1) by (auto simp: oc_def)
qed

lemma conv2d_col_fold_frame:
  assumes ok: "output_shape_ok L"
    and row: "0 \<le> out_row" "out_row < result_height L"
  shows "0 \<le> fst st \<Longrightarrow> (fst st < result_width L \<or> fst st = 0) \<Longrightarrow>
         x \<notin> result_plane L result chan \<Longrightarrow>
         snd (fold (conv2d_col L a kernels img kern chan result in_row out_row) cs st) x
           = snd st x"
proof (induction cs arbitrary: st)
  case Nil
  then show ?case by simp
next
  case (Cons c cs)
  note F = conv2d_col_frame[OF ok row Cons.prems(1,2), of a kernels img kern chan result in_row c]
  have "snd (fold (conv2d_col L a kernels img kern chan result in_row out_row) (c # cs) st) x
      = snd (conv2d_col L a kernels img kern chan result in_row out_row c st) x"
    using F Cons.prems(3) by (simp add: Cons.IH)
  also have "\<dots> = snd st x" using F Cons.prems(3) by simp
  finally show ?case .
qed

lemma conv2d_row_frame:
  assumes ok: "output_shape_ok L"
  shows "0 \<le> out_row \<Longrightarrow> in_row = out_row * k_stride L \<Longrightarrow>
         \<exists>h'. conv2d_row L a kernels img kern chan result in_row out_row h = Some h' \<and>
              (\<forall>x. x \<notin> result_plane L result chan \<longrightarrow> h' x = h x)"
proof (induction "nat (end_row L - in_row)" arbitrary: in_row out_row h rule: less_induct)
  case less
  from ok have stride: "0 < k_stride L" and rows: "end_row L \<le> k_stride L * result_height L"
    by (simp_all add: output_shape_ok_def)
  show ?case
  proof (cases "in_row < end_row L")
    case False
    then show ?thesis by (subst conv2d_row.simps) simp
  next
    case True
    define h1 where "h1 = snd (fold (conv2d_col L a kernels img kern chan result in_row out_row)
                                 [0..<nat (end_col L)] (0, h))"
    have "out_row * k_stride L < k_stride L * result_height L"
      using True rows less.prems(2) by simp
    then have "k_stride L * out_row < k_stride L * result_height L"
      by (simp add: mult.commute)
    then have row: "out_row < result_height L"
      using stride by (simp add: mult_less_cancel_left_pos)
    have frame1: "h1 x = h x" if "x \<notin> result_plane L result chan" for x
      unfolding h1_def
      using conv2d_col_fold_frame[OF ok less.prems(1) row, of "(0, h)" x result chan] that
      by simp
    have dec: "nat (end_row L - (in_row + k_stride L)) < nat (end_row L - in_row)"
      using True stride by linarith
    have next_row: "in_row + k_stride L = (out_row + 1) * k_stride L"
      using less.prems(2) by (simp add: algebra_simps)
    from less.hyps[OF dec _ next_row, of h1] less.prems(1)
    obtain h' where h': "conv2d_row L a kernels img kern chan result (in_row + k_stride L)
                           (out_row + 1) h1 = Some h'"
      and frame2: "\<And>x. x \<notin> result_plane L result chan \<Longrightarrow> h' x = h1 x"
      by auto
    have "conv2d_row L a kernels img kern chan result in_row out_row h = Some h'"
      using True h' by (subst conv2d_row.simps) (simp add: h1_def)
    with frame1 frame2 show ?thesis by simp
  qed
qed

text \<open>
  Claim C10. For a descriptor whose stride is positive, whose output rows are padded to a
  whole number of vectors and whose declared output rows cover the rows the kernel
  produces, so that every subscript of the result array is within its declared shape, the
  call returns, and every float of the store outside channel plane \<open>chan\<close> of the result
  buffer has the value it had before the call. That covers the activation buffer and the
  kernels buffer, which the function only reads, wherever they do not overlap that plane,
  and every other channel plane of the result buffer.
\<close>

theorem convolution2d_frame:
  assumes "output_shape_ok L"
  shows "\<exists>h'. convolution2d_smiv_1kernel_1channel_simd_fxp a kernels img kern chan L result h
                = Some h' \<and>
              (\<forall>x. x \<notin> result_plane L result chan \<longrightarrow> h' x = h x)"
  unfolding convolution2d_smiv_1kernel_1channel_simd_fxp_def
  by (rule conv2d_row_frame[OF assms]) simp_all

theorem convolution2d_frame_witness:
  "output_shape_ok plain_layer \<and>
   (\<exists>h'. convolution2d_smiv_1kernel_1channel_simd_fxp 0 100 0 0 0 plain_layer 200 stale_heap
            = Some h' \<and>
          h' 0 = 0 \<and> h' 100 = 1 \<and> h' 208 = 0)"
proof -
  have ok: "output_shape_ok plain_layer"
    by (simp add: output_shape_ok_def plain_layer_def k_stride_def result_width_def
        result_padded_width_def end_row_def a_height_def k_width_def result_height_def
        VECTOR_SIZE_def)
  have out: "(0 :: int) \<notin> result_plane plain_layer 200 0"
    "(100 :: int) \<notin> result_plane plain_layer 200 0"
    "(208 :: int) \<notin> result_plane plain_layer 200 0"
    by (simp_all add: result_plane_def plain_layer_def result_height_def
        result_padded_width_def result_width_def)
  from convolution2d_frame [OF ok, where a = 0 and kernels = 100 and img = 0 and kern = 0
      and chan = 0 and result = 200 and h = stale_heap]
  obtain h' where
    "convolution2d_smiv_1kernel_1channel_simd_fxp 0 100 0 0 0 plain_layer 200 stale_heap
       = Some h'"
    and "\<And>x. x \<notin> result_plane plain_layer 200 0 \<Longrightarrow> h' x = stale_heap x"
    by blast
  with out have "convolution2d_smiv_1kernel_1channel_simd_fxp 0 100 0 0 0 plain_layer 200
      stale_heap = Some h' \<and> h' 0 = 0 \<and> h' 100 = 1 \<and> h' 208 = 0"
    by (simp add: stale_heap_def)
  with ok show ?thesis by blast
qed

subsection \<open>Zero activations\<close>

text \<open>
  Zeros in every lane of both shift registers stay zeros under a shift, contribute
  nothing to the partial sums, and merge to the zero vector. So when the input plane that
  a call reads is all zero, every float the call commits is zero: after the call, every
  float of the store is either what it was or zero. This holds for every positive stride
  and both throughput modes, and it needs no assumption on the weights or on where the
  buffers lie.
\<close>

lemma is_shift_reg_zero: "is_shift_reg [v8fp_zero, v8fp_zero]"
  by (simp add: is_shift_reg_def is_v8fp_def v8fp_zero_def SR_SIZE_def SHIFT_REG_SIZE_def
      VECTOR_SIZE_def)

lemma lanes_zero_reg: "lanes [v8fp_zero, v8fp_zero] = replicate SHIFT_REG_SIZE 0"
  by (simp add: lanes_def v8fp_zero_def SHIFT_REG_SIZE_def VECTOR_SIZE_def
      replicate_add[symmetric])

lemma shift_zero_reg:
  "shift_reg_simd_lshift [v8fp_zero, v8fp_zero] shamt = [v8fp_zero, v8fp_zero]"
proof -
  note I = lshift_fold_inv[OF is_shift_reg_zero order_refl, of shamt,
      folded shift_reg_simd_lshift_def]
  have wf: "is_shift_reg (shift_reg_simd_lshift [v8fp_zero, v8fp_zero] shamt)"
    using I by simp
  have "lanes (shift_reg_simd_lshift [v8fp_zero, v8fp_zero] shamt)
      = lanes [v8fp_zero, v8fp_zero]"
  proof (rule nth_equalityI)
    show "length (lanes (shift_reg_simd_lshift [v8fp_zero, v8fp_zero] shamt))
        = length (lanes [v8fp_zero, v8fp_zero])"
      by (simp add: length_lanes wf is_shift_reg_zero)
  next
    fix i assume "i < length (lanes (shift_reg_simd_lshift [v8fp_zero, v8fp_zero] shamt))"
    then have i: "i < SHIFT_REG_SIZE" by (simp add: length_lanes wf)
    with I show "lanes (shift_reg_simd_lshift [v8fp_zero, v8fp_zero] shamt) ! i
        = lanes [v8fp_zero, v8fp_zero] ! i"
      by (simp add: lanes_zero_reg)
  qed
  then show ?thesis by (rule lanes_inject[OF wf is_shift_reg_zero])
qed

lemma dot_product_zero_reg: "dot_product w off [v8fp_zero, v8fp_zero] = 0"
  by (simp add: dot_product_def v8fp_zero_def DATAPATH_WIDTH_def VECTOR_SIZE_def)

lemma dp_outer_zero_reg:
  "conv2d_dp_outer w s d1 k
     \<lparr>psums_tmp_0 = p0, psums_tmp_1 = p1,
      pipe0_reg = [v8fp_zero, v8fp_zero], pipe1_reg = [v8fp_zero, v8fp_zero]\<rparr> =
     \<lparr>psums_tmp_0 = p0, psums_tmp_1 = p1,
      pipe0_reg = [v8fp_zero, v8fp_zero], pipe1_reg = [v8fp_zero, v8fp_zero]\<rparr>"
  by (simp add: dp_outer_step dot_product_zero_reg shift_zero_reg)

lemma macc_zero_reg:
  "conv_macc_datapath_simd_fxp w [v8fp_zero, v8fp_zero] [v8fp_zero, v8fp_zero] s d0 d1 p0 p1 =
     \<lparr>psums_tmp_0 = p0, psums_tmp_1 = p1,
      pipe0_reg = [v8fp_zero, v8fp_zero], pipe1_reg = [v8fp_zero, v8fp_zero]\<rparr>"
proof -
  have "fold (conv2d_dp_outer w s d1) ks
      \<lparr>psums_tmp_0 = p0, psums_tmp_1 = p1,
       pipe0_reg = [v8fp_zero, v8fp_zero], pipe1_reg = [v8fp_zero, v8fp_zero]\<rparr> =
      \<lparr>psums_tmp_0 = p0, psums_tmp_1 = p1,
       pipe0_reg = [v8fp_zero, v8fp_zero], pipe1_reg = [v8fp_zero, v8fp_zero]\<rparr>" for ks
    by (induction ks) (simp_all add: dp_outer_zero_reg)
  then show ?thesis by (simp add: conv_macc_datapath_simd_fxp_def)
qed

lemma merge_zero: "merge_psums_simd_fxp v8fp_zero v8fp_zero tp = v8fp_zero"
proof (rule nth_equalityI)
  have z: "length v8fp_zero = VECTOR_SIZE" by (simp add: v8fp_zero_def)
  have len: "is_v8fp (merge_psums_simd_fxp v8fp_zero v8fp_zero tp)"
    using merge_double_fold[of "VECTOR_SIZE div 2" v8fp_zero v8fp_zero v8fp_zero]
      merge_single_fold[of VECTOR_SIZE v8fp_zero v8fp_zero v8fp_zero]
    by (simp add: merge_psums_simd_fxp_def is_v8fp_def z VECTOR_SIZE_def)
  then show "length (merge_psums_simd_fxp v8fp_zero v8fp_zero tp) = length v8fp_zero"
    by (simp add: is_v8fp_def z)
  fix i assume "i < length (merge_psums_simd_fxp v8fp_zero v8fp_zero tp)"
  then have i: "i < VECTOR_SIZE" using len by (simp add: is_v8fp_def)
  then have zi: "v8fp_zero ! i = 0" "v8fp_zero ! (i div 2) = 0"
    by (simp_all add: v8fp_zero_def VECTOR_SIZE_def)
  show "merge_psums_simd_fxp v8fp_zero v8fp_zero tp ! i = v8fp_zero ! i"
  proof (cases tp)
    case True
    have "2 * (VECTOR_SIZE div 2) \<le> length v8fp_zero" by (simp add: z)
    from merge_double_fold[OF this, of v8fp_zero v8fp_zero] i zi True show ?thesis
      by (simp add: merge_psums_simd_fxp_def z VECTOR_SIZE_def)
  next
    case False
    have "VECTOR_SIZE \<le> length v8fp_zero" by (simp add: z)
    from merge_single_fold[OF this, of v8fp_zero v8fp_zero] i zi False show ?thesis
      by (simp add: merge_psums_simd_fxp_def z)
  qed
qed

lemma load_v8fp_zero:
  assumes "\<And>l. l < VECTOR_SIZE \<Longrightarrow> h (lane_addr p v l) = 0"
  shows "load_v8fp h p v = v8fp_zero"
proof -
  have "map (\<lambda>l. h (lane_addr p v l)) [0..<VECTOR_SIZE] = map (\<lambda>l. 0) [0..<VECTOR_SIZE]"
    using assms by (intro map_cong) simp_all
  then show ?thesis by (simp add: load_v8fp_def v8fp_zero_def map_replicate_const)
qed

lemma loaded_columns:
  assumes ok: "input_shape_ok L" and hi: "in_col < end_col L"
  shows "in_col < FRAC_CEIL (a_width L) (int VECTOR_SIZE)"
    and "\<not> (has_boundary_case L \<and> in_col = end_col_marker L) \<Longrightarrow>
         in_col + 1 < FRAC_CEIL (a_width L) (int VECTOR_SIZE)"
  using hi fetches_facts(4,5)[OF ok] by (auto split: if_splits)

lemma load_activations_zero:
  assumes ok: "input_shape_ok L" and lo: "0 \<le> in_col" and hi: "in_col < end_col L"
    and row: "0 \<le> row" "row < a_height L"
    and zero: "\<forall>x \<in> input_plane L a img chan. h x = 0"
  shows "load_activations L h a img chan row in_col = [v8fp_zero, v8fp_zero]"
proof -
  have plane: "x \<in> input_row L a img chan row \<Longrightarrow> h x = 0" for x
    using zero row by (auto simp: input_plane_def)
  have v0: "load_v8fp h a
      (vec_index_4d (k_height L) (a_height L) (a_padded_width L) img chan row in_col) = v8fp_zero"
    by (rule load_v8fp_zero)
      (rule plane, rule input_lane_in_row[OF ok lo loaded_columns(1)[OF ok hi]])
  show ?thesis
  proof (cases "has_boundary_case L \<and> in_col = end_col_marker L")
    case True
    then show ?thesis using v0 by (simp add: load_activations_def Let_def del: One_nat_def)
  next
    case False
    have lo1: "0 \<le> in_col + 1" using lo by simp
    have v1: "load_v8fp h a
        (vec_index_4d (k_height L) (a_height L) (a_padded_width L) img chan row (in_col + 1))
        = v8fp_zero"
      by (rule load_v8fp_zero)
        (rule plane, rule input_lane_in_row[OF ok lo1 loaded_columns(2)[OF ok hi False]])
    from False show ?thesis using v0 v1 by (simp add: load_activations_def Let_def)
  qed
qed

lemma conv2d_kern_row_zero:
  assumes "load_activations L h a img chan (in_row + int kr) in_col = [v8fp_zero, v8fp_zero]"
  shows "conv2d_kern_row L h a kernels img kern chan in_row in_col sched kr ps = ps"
  by (simp add: conv2d_kern_row_def Let_def assms shift_zero_reg macc_zero_reg)

lemma conv2d_kern_fold_zero:
  assumes "\<And>kr. kr \<in> set krs \<Longrightarrow>
    load_activations L h a img chan (in_row + int kr) in_col = [v8fp_zero, v8fp_zero]"
  shows "fold (conv2d_kern_row L h a kernels img kern chan in_row in_col sched) krs ps = ps"
  using assms by (induction krs) (simp_all add: conv2d_kern_row_zero)

lemma c_min_le1: "c_min a b \<le> (a :: 32 word)"
  by (auto simp: c_min_def)

lemma max_psums_bounds:
  "unat (max_psums_per_act L) \<le> 8"
  "double_tp L \<Longrightarrow> unat (max_psums_per_act L) \<le> 4"
  by (simp_all add: max_psums_per_act_def DATAPATH_WIDTH_def)

lemma total_outpx_le_vector:
  "unat (total_outpx (compute_schedule L out_col)) \<le> VECTOR_SIZE"
proof (cases "double_tp L")
  case False
  have "unat (c_min (max_psums_per_act L) r) \<le> unat (max_psums_per_act L)" for r
    using c_min_le1[of "max_psums_per_act L" r] by (simp add: word_le_nat_alt)
  then have "unat (c_min (max_psums_per_act L) r) \<le> 8" for r
    using max_psums_bounds(1)[of L] by (rule order_trans)
  with False show ?thesis
    by (simp add: compute_schedule_def Let_def VECTOR_SIZE_def)
next
  case True
  have le: "unat (c_min (max_psums_per_act L) r) \<le> 4" for r
    using c_min_le1[of "max_psums_per_act L" r] max_psums_bounds(2)[OF True]
    by (simp add: word_le_nat_alt)
  have sum: "unat (x + y) \<le> unat x + unat y" for x y :: "32 word"
    by (simp add: unat_word_ariths)
  have "unat (c_min (max_psums_per_act L) r + c_min (max_psums_per_act L) r') \<le> 8" for r r'
    using sum[of "c_min (max_psums_per_act L) r" "c_min (max_psums_per_act L) r'"]
      le[of r] le[of r'] by linarith
  then show ?thesis using True
    by (simp add: compute_schedule_def Let_def VECTOR_SIZE_def)
qed

lemma commit_fold_zero:
  assumes "\<And>j. j < n \<Longrightarrow> fp ! j = 0"
  shows "fold (conv2d_commit L result chan out_row out_col fp) [0..<n] h x = h x \<or>
         fold (conv2d_commit L result chan out_row out_col fp) [0..<n] h x = 0"
  using assms
proof (induction n)
  case 0
  then show ?case by simp
next
  case (Suc n)
  have "fold (conv2d_commit L result chan out_row out_col fp) [0..<Suc n] h x =
      conv2d_commit L result chan out_row out_col fp n
        (fold (conv2d_commit L result chan out_row out_col fp) [0..<n] h) x"
    by simp
  with Suc.IH Suc.prems show ?case
    by (auto simp: conv2d_commit_apply)
qed

lemma conv2d_col_snd_zero:
  assumes ok: "input_shape_ok L" and hi: "int in_col < end_col L"
    and row: "0 \<le> in_row" "in_row < end_row L"
    and zero: "\<forall>x \<in> input_plane L a img chan. snd st x = 0"
  shows "snd (conv2d_col L a kernels img kern chan result in_row out_row in_col st)
      = fold (conv2d_commit L result chan out_row (fst st) v8fp_zero)
          [0..<unat (total_outpx (compute_schedule L (fst st)))] (snd st)"
proof -
  have loads: "load_activations L (snd st) a img chan (in_row + int kr) (int in_col)
      = [v8fp_zero, v8fp_zero]" if "kr \<in> set [0..<nat (end_kern L)]" for kr
  proof -
    from that have "int kr < k_width L" by (simp add: end_kern_def)
    with row have "0 \<le> in_row + int kr" "in_row + int kr < a_height L"
      by (simp_all add: end_row_def)
    from load_activations_zero[OF ok _ hi this zero] show ?thesis by simp
  qed
  have psums: "fold (conv2d_kern_row L (snd st) a kernels img kern chan in_row (int in_col) sched)
      [0..<nat (end_kern L)] (v8fp_zero, v8fp_zero) = (v8fp_zero, v8fp_zero)" for sched
    by (rule conv2d_kern_fold_zero) (rule loads)
  show ?thesis by (simp add: conv2d_col_def Let_def psums merge_zero)
qed

lemma conv2d_col_zero_or_same:
  assumes ok: "input_shape_ok L" and hi: "int in_col < end_col L"
    and row: "0 \<le> in_row" "in_row < end_row L"
    and zero: "\<forall>x \<in> input_plane L a img chan. snd st x = 0"
  shows "snd (conv2d_col L a kernels img kern chan result in_row out_row in_col st) x = snd st x \<or>
         snd (conv2d_col L a kernels img kern chan result in_row out_row in_col st) x = 0"
proof -
  have lanes0: "j < unat (total_outpx (compute_schedule L (fst st))) \<Longrightarrow> v8fp_zero ! j = 0" for j
    using total_outpx_le_vector[of L "fst st"] by (simp add: v8fp_zero_def)
  show ?thesis
    unfolding conv2d_col_snd_zero[OF ok hi row zero]
    by (rule commit_fold_zero) (rule lanes0)
qed

lemma conv2d_col_fold_zero_or_same:
  assumes ok: "input_shape_ok L" and row: "0 \<le> in_row" "in_row < end_row L"
  shows "(\<And>c. c \<in> set cs \<Longrightarrow> int c < end_col L) \<Longrightarrow>
         \<forall>x \<in> input_plane L a img chan. snd st x = 0 \<Longrightarrow>
         \<forall>x. snd (fold (conv2d_col L a kernels img kern chan result in_row out_row) cs st) x
                = snd st x \<or>
             snd (fold (conv2d_col L a kernels img kern chan result in_row out_row) cs st) x = 0"
proof (induction cs arbitrary: st)
  case Nil
  then show ?case by simp
next
  case (Cons c cs)
  let ?st = "conv2d_col L a kernels img kern chan result in_row out_row c st"
  have c: "int c < end_col L" using Cons.prems(1) by simp
  note S = conv2d_col_zero_or_same[OF ok c row Cons.prems(2),
      of kernels kern result out_row]
  have z: "\<forall>x \<in> input_plane L a img chan. snd ?st x = 0"
    using S Cons.prems(2) by metis
  have "\<forall>x. snd (fold (conv2d_col L a kernels img kern chan result in_row out_row) cs ?st) x
                = snd ?st x \<or>
             snd (fold (conv2d_col L a kernels img kern chan result in_row out_row) cs ?st) x = 0"
    using Cons.prems(1) by (intro Cons.IH z) simp
  with S show ?case by (simp, metis)
qed

lemma conv2d_row_zero_or_same:
  assumes ok: "input_shape_ok L" and stride: "0 < k_stride L"
  shows "0 \<le> in_row \<Longrightarrow> \<forall>x \<in> input_plane L a img chan. h x = 0 \<Longrightarrow>
         \<exists>h'. conv2d_row L a kernels img kern chan result in_row out_row h = Some h' \<and>
              (\<forall>x. h' x = h x \<or> h' x = 0)"
proof (induction "nat (end_row L - in_row)" arbitrary: in_row out_row h rule: less_induct)
  case less
  show ?case
  proof (cases "in_row < end_row L")
    case False
    then show ?thesis by (subst conv2d_row.simps) simp
  next
    case True
    define h1 where "h1 = snd (fold (conv2d_col L a kernels img kern chan result in_row out_row)
                                 [0..<nat (end_col L)] (0, h))"
    have step: "\<forall>x. h1 x = h x \<or> h1 x = 0"
    proof -
      have "\<forall>x. snd (fold (conv2d_col L a kernels img kern chan result in_row out_row)
                      [0..<nat (end_col L)] (0, h)) x = snd (0 :: int, h) x \<or>
                 snd (fold (conv2d_col L a kernels img kern chan result in_row out_row)
                      [0..<nat (end_col L)] (0, h)) x = 0"
        by (rule conv2d_col_fold_zero_or_same[OF ok less.prems(1) True])
          (use less.prems(2) in simp_all)
      then show ?thesis by (simp add: h1_def)
    qed
    then have z1: "\<forall>x \<in> input_plane L a img chan. h1 x = 0"
      using less.prems(2) by metis
    have dec: "nat (end_row L - (in_row + k_stride L)) < nat (end_row L - in_row)"
      using True stride by linarith
    have pos: "0 \<le> in_row + k_stride L" using less.prems(1) stride by simp
    from less.hyps[OF dec pos z1, of "out_row + 1"]
    obtain h' where h': "conv2d_row L a kernels img kern chan result (in_row + k_stride L)
                           (out_row + 1) h1 = Some h'"
      and same: "\<forall>x. h' x = h1 x \<or> h' x = 0"
      by auto
    have "conv2d_row L a kernels img kern chan result in_row out_row h = Some h'"
      using True h' by (subst conv2d_row.simps) (simp add: h1_def)
    moreover have "\<forall>x. h' x = h x \<or> h' x = 0" using step same by metis
    ultimately show ?thesis by simp
  qed
qed

lemma zero_activations_write_zeros:
  assumes "input_shape_ok L" and "0 < k_stride L"
    and "\<forall>x \<in> input_plane L a img chan. h x = 0"
  shows "\<exists>h'. convolution2d_smiv_1kernel_1channel_simd_fxp a kernels img kern chan L result h
                = Some h' \<and>
              (\<forall>x. h' x = h x \<or> h' x = 0)"
  unfolding convolution2d_smiv_1kernel_1channel_simd_fxp_def
  by (rule conv2d_row_zero_or_same[OF assms(1,2) _ assms(3)]) simp

text \<open>
  What remains is whether every element of the declared output is committed at all. With
  stride 1 it is: a column group yields \<^verbatim>\<open>VECTOR_SIZE\<close> output pixels, or the rest of the
  row, so \<^verbatim>\<open>out_col\<close> is a multiple of \<^verbatim>\<open>VECTOR_SIZE\<close> whenever a group is committed,
  and lane \<open>j\<close> of vector \<^verbatim>\<open>out_col / VECTOR_SIZE\<close> is output column \<^verbatim>\<open>out_col + j\<close>.
\<close>

lemma unat_c_min: "unat (c_min a b) = min (unat a) (unat (b :: 32 word))"
  by (auto simp: c_min_def word_less_nat_alt min_def)

lemma unat_halves:
  fixes r :: "32 word"
  shows "unat (r div 2) = unat r div 2"
    and "unat (r div 2 + r mod 2) = unat r div 2 + unat r mod 2"
proof -
  show d: "unat (r div 2) = unat r div 2" by (simp add: unat_div)
  have "unat r div 2 + unat r mod 2 \<le> unat r" by presburger
  also have "\<dots> < 2 ^ 32" using unsigned_less[of r] by simp
  finally have "unat (r div 2) + unat (r mod 2) < 2 ^ LENGTH(32)"
    by (simp add: unat_div unat_mod)
  then show "unat (r div 2 + r mod 2) = unat r div 2 + unat r mod 2"
    by (simp add: unat_add_lem[THEN iffD1] unat_div unat_mod)
qed

lemma total_outpx_stride1:
  assumes s1: "k_stride L = 1" and oc: "0 \<le> out_col" "out_col < result_width L"
    and lim: "result_width L < 2 ^ 31"
  shows "int (unat (total_outpx (compute_schedule L out_col))) = min 8 (result_width L - out_col)"
proof -
  define r where "r = (word_of_int (result_width L - out_col) :: 32 word)"
  have R: "unat r = nat (result_width L - out_col)"
    unfolding r_def using oc lim by (intro unat_word_of_int_32) simp_all
  show ?thesis
  proof (cases "double_tp L")
    case False
    then have "total_outpx (compute_schedule L out_col) = c_min 8 r"
      using s1 by (simp add: compute_schedule_def Let_def max_psums_per_act_def r_def
          DATAPATH_WIDTH_def)
    then show ?thesis using oc by (simp add: unat_c_min R)
  next
    case True
    then have t: "total_outpx (compute_schedule L out_col)
        = c_min 4 (r div 2 + r mod 2) + c_min 4 (r div 2)"
      using s1 by (simp add: compute_schedule_def Let_def max_psums_per_act_def r_def
          DATAPATH_WIDTH_def)
    have a: "unat (c_min 4 (r div 2 + r mod 2)) = min 4 (unat r div 2 + unat r mod 2)"
      and b: "unat (c_min 4 (r div 2)) = min 4 (unat r div 2)"
      by (simp_all add: unat_c_min unat_halves)
    have "unat (c_min 4 (r div 2 + r mod 2)) + unat (c_min 4 (r div 2)) < 2 ^ LENGTH(32)"
      unfolding a b by simp
    then have "unat (c_min 4 (r div 2 + r mod 2) + c_min 4 (r div 2))
        = min 4 (unat r div 2 + unat r mod 2) + min 4 (unat r div 2)"
      by (simp add: unat_add_lem[THEN iffD1] a b)
    also have "\<dots> = min 8 (unat r)" by presburger
    finally show ?thesis using oc by (simp add: t R)
  qed
qed
lemma commit_fold_written:
  assumes "\<And>j. j < n \<Longrightarrow> fp ! j = 0" and "j < n"
  shows "fold (conv2d_commit L result chan out_row out_col fp) [0..<n] h
           (lane_addr result (vec_index_3d (result_height L) (result_padded_width L) chan
              out_row (out_col sdiv int VECTOR_SIZE)) j) = 0"
  using assms
proof (induction n)
  case 0
  then show ?case by simp
next
  case (Suc n)
  have "fold (conv2d_commit L result chan out_row out_col fp) [0..<Suc n] h x =
      conv2d_commit L result chan out_row out_col fp n
        (fold (conv2d_commit L result chan out_row out_col fp) [0..<n] h) x" for x
    by simp
  then show ?case
    using Suc.IH Suc.prems by (auto simp: conv2d_commit_apply less_Suc_eq)
qed

lemma lane_is_result_elem:
  assumes ok: "output_shape_ok L" and oc: "0 \<le> out_col" "out_col mod 8 = 0"
  shows "lane_addr result (vec_index_3d (result_height L) (result_padded_width L) chan out_row
           (out_col sdiv int VECTOR_SIZE)) j = result_elem L result chan out_row (out_col + int j)"
proof -
  define W where "W = result_padded_width L"
  from ok have W0: "0 \<le> W" and Wm: "W mod 8 = 0"
    by (auto simp: output_shape_ok_def W_def result_padded_width_def VECTOR_SIZE_def)
  have W8: "8 * (W div 8) = W" using Wm by presburger
  have c8: "8 * (out_col div 8) = out_col" using oc(2) by presburger
  have "8 * ((chan * result_height L + out_row) * (W div 8) + out_col div 8)
      = (chan * result_height L + out_row) * (8 * (W div 8)) + 8 * (out_col div 8)"
    by (simp add: algebra_simps)
  then show ?thesis
    using W0 oc(1)
    by (simp add: lane_addr_def vec_index_3d_def VECTOR_SIZE_def sdiv_nonneg result_elem_def
        W8 c8 W_def[symmetric])
qed

lemma conv2d_col_fst:
  assumes rw: "0 \<le> result_width L" "result_width L < 2 ^ 31"
    and col: "0 \<le> fst st" "fst st < result_width L \<or> fst st = 0"
  shows "fst (conv2d_col L a kernels img kern chan result in_row out_row in_col st) =
     (if result_width L \<le> fst st + int (unat (total_outpx (compute_schedule L (fst st))))
      then 0 else fst st + int (unat (total_outpx (compute_schedule L (fst st)))))"
proof -
  define oc where "oc = fst st"
  define n where "n = unat (total_outpx (compute_schedule L oc))"
  have fits: "oc + int n \<le> result_width L"
    unfolding n_def using total_outpx_fits[OF rw] col by (simp add: oc_def)
  have "word_of_int oc + total_outpx (compute_schedule L oc)
      = (word_of_int (oc + int n) :: 32 word)"
    by (simp add: n_def)
  moreover have "- (2 ^ 31) \<le> oc + int n" "oc + int n < 2 ^ 31"
    using fits rw col by (simp_all add: oc_def)
  then have "sint (word_of_int (oc + int n) :: 32 word) = oc + int n"
    by (rule sint_word_of_int_32)
  ultimately have "sint (word_of_int oc + total_outpx (compute_schedule L oc) :: 32 word)
      = oc + int n"
    by (simp only:)
  then show ?thesis
    by (simp add: conv2d_col_def Let_def oc_def[symmetric] n_def[symmetric])
qed

lemma word_of_int_less_32:
  assumes "0 \<le> x" "x < 2 ^ 32" "0 \<le> y" "y < 2 ^ 32"
  shows "(word_of_int x < (word_of_int y :: 32 word)) \<longleftrightarrow> x < y"
  using assms by (auto simp: word_less_nat_alt unat_word_of_int_32)

lemma end_col_covers:
  assumes ok: "input_shape_ok L" and s1: "k_stride L = 1"
    and rw: "0 < result_width L" "result_width L \<le> a_width L"
  shows "result_width L \<le> 8 * end_col L"
proof -
  define f where "f = FRAC_CEIL (a_width L) (int VECTOR_SIZE)"
  note F = fetches_facts[OF ok, folded f_def]
  from ok have a0: "0 \<le> a_width L" and lim: "a_padded_width L < 2 ^ 31"
    and pad: "a_width L \<le> a_padded_width L"
    by (auto simp: input_shape_ok_def a_padded_width_def)
  have fe: "f = a_width L div 8 + (if a_width L mod 8 \<noteq> 0 then 1 else 0)"
    unfolding f_def VECTOR_SIZE_def using FRAC_CEIL_nonneg[OF a0] by simp
  have cover: "a_width L \<le> 8 * f" unfolding fe by presburger
  have f1: "1 \<le> f" using cover rw by linarith
  show ?thesis
  proof (cases "has_boundary_case L")
    case True
    then show ?thesis using F(5) cover rw by simp
  next
    case False
    have "(input_fetches_per_row L - 1) * word_of_nat VECTOR_SIZE
        = (word_of_int (8 * (f - 1)) :: 32 word)"
      unfolding input_fetches_per_row_def f_def[symmetric]
      by (simp add: VECTOR_SIZE_def algebra_simps)
    moreover have "last_input_pixel_start_col L = word_of_int (result_width L)"
      by (simp add: last_input_pixel_start_col_def s1)
    ultimately have nlt: "\<not> (word_of_int (8 * (f - 1)) :: 32 word)
                               < word_of_int (result_width L)"
      using False unfolding has_boundary_case_def by metis
    have bounds: "0 \<le> 8 * (f - 1)" "8 * (f - 1) < 2 ^ 32" "0 \<le> result_width L"
      "result_width L < 2 ^ 32"
      using f1 F(2) lim rw pad by simp_all
    have "((word_of_int (8 * (f - 1)) :: 32 word) < word_of_int (result_width L))
        \<longleftrightarrow> 8 * (f - 1) < result_width L"
      using bounds by (rule word_of_int_less_32)
    with nlt have "\<not> 8 * (f - 1) < result_width L" by blast
    then show ?thesis using F(5) False by simp
  qed
qed
lemma conv2d_col_stride1:
  assumes s1: "k_stride L = 1" and iok: "input_shape_ok L" and ook: "output_shape_ok L"
    and hi: "int in_col < end_col L" and row: "0 \<le> in_row" "in_row < end_row L"
    and zero: "\<forall>x \<in> input_plane L a img chan. snd st x = 0"
    and oc: "0 \<le> fst st" "fst st < result_width L" "fst st mod 8 = 0"
  shows "fst (conv2d_col L a kernels img kern chan result in_row out_row in_col st) =
           (if result_width L - fst st \<le> 8 then 0 else fst st + 8)"
    and "\<forall>c. fst st \<le> c \<and> c < fst st + min 8 (result_width L - fst st) \<longrightarrow>
           snd (conv2d_col L a kernels img kern chan result in_row out_row in_col st)
             (result_elem L result chan out_row c) = 0"
proof -
  define n where "n = unat (total_outpx (compute_schedule L (fst st)))"
  from ook have rw: "0 \<le> result_width L" "result_width L < 2 ^ 31"
    by (auto simp: output_shape_ok_def result_padded_width_def)
  have n: "int n = min 8 (result_width L - fst st)"
    unfolding n_def by (rule total_outpx_stride1[OF s1 oc(1,2) rw(2)])
  show "fst (conv2d_col L a kernels img kern chan result in_row out_row in_col st) =
           (if result_width L - fst st \<le> 8 then 0 else fst st + 8)"
    using conv2d_col_fst[OF rw oc(1), of a kernels img kern chan result in_row out_row in_col]
      oc(2) n
    by (auto simp: n_def[symmetric] min_def split: if_splits)
  have lanes0: "j < n \<Longrightarrow> v8fp_zero ! j = 0" for j
    using total_outpx_le_vector[of L "fst st"] by (simp add: v8fp_zero_def n_def)
  show "\<forall>c. fst st \<le> c \<and> c < fst st + min 8 (result_width L - fst st) \<longrightarrow>
           snd (conv2d_col L a kernels img kern chan result in_row out_row in_col st)
             (result_elem L result chan out_row c) = 0"
  proof (intro allI impI)
    fix c assume c: "fst st \<le> c \<and> c < fst st + min 8 (result_width L - fst st)"
    define j where "j = nat (c - fst st)"
    have "c - fst st < int n" using c n by linarith
    then have j: "j < n" using c by (simp add: j_def nat_less_iff)
    have cj: "c = fst st + int j" using c by (simp add: j_def)
    have "snd (conv2d_col L a kernels img kern chan result in_row out_row in_col st)
             (lane_addr result (vec_index_3d (result_height L) (result_padded_width L) chan
                out_row (fst st sdiv int VECTOR_SIZE)) j) = 0"
      unfolding conv2d_col_snd_zero[OF iok hi row zero] n_def[symmetric]
      by (rule commit_fold_written[OF lanes0 j])
    then show "snd (conv2d_col L a kernels img kern chan result in_row out_row in_col st)
             (result_elem L result chan out_row c) = 0"
      by (simp add: lane_is_result_elem[OF ook oc(1,3)] cj)
  qed
qed

lemma conv2d_col_fold_stride1:
  assumes s1: "k_stride L = 1" and iok: "input_shape_ok L" and ook: "output_shape_ok L"
    and row: "0 \<le> in_row" "in_row < end_row L"
    and zero: "\<forall>x \<in> input_plane L a img chan. h x = 0"
  shows "g \<le> nat (end_col L) \<Longrightarrow>
    (\<forall>x. snd (fold (conv2d_col L a kernels img kern chan result in_row out_row) [0..<g] (0, h)) x
            = h x \<or>
         snd (fold (conv2d_col L a kernels img kern chan result in_row out_row) [0..<g] (0, h)) x
            = 0) \<and>
    ((fst (fold (conv2d_col L a kernels img kern chan result in_row out_row) [0..<g] (0, h))
        = 8 * int g \<and> 8 * int g < result_width L \<and>
      (\<forall>c. 0 \<le> c \<and> c < 8 * int g \<longrightarrow>
         snd (fold (conv2d_col L a kernels img kern chan result in_row out_row) [0..<g] (0, h))
           (result_elem L result chan out_row c) = 0)) \<or>
     (\<forall>c. 0 \<le> c \<and> c < result_width L \<longrightarrow>
         snd (fold (conv2d_col L a kernels img kern chan result in_row out_row) [0..<g] (0, h))
           (result_elem L result chan out_row c) = 0))"
proof (induction g)
  case 0
  then show ?case by (cases "0 < result_width L") auto
next
  case (Suc g)
  define st where
    "st = fold (conv2d_col L a kernels img kern chan result in_row out_row) [0..<g] (0, h)"
  define st' where "st' = conv2d_col L a kernels img kern chan result in_row out_row g st"
  have step: "fold (conv2d_col L a kernels img kern chan result in_row out_row) [0..<Suc g] (0, h)
      = st'"
    by (simp add: st'_def st_def)
  from Suc.prems have g: "int g < end_col L" and g': "g \<le> nat (end_col L)" by linarith+
  from Suc.IH[OF g'] have same: "\<forall>x. snd st x = h x \<or> snd st x = 0"
    and phase: "(fst st = 8 * int g \<and> 8 * int g < result_width L \<and>
        (\<forall>c. 0 \<le> c \<and> c < 8 * int g \<longrightarrow> snd st (result_elem L result chan out_row c) = 0)) \<or>
        (\<forall>c. 0 \<le> c \<and> c < result_width L \<longrightarrow> snd st (result_elem L result chan out_row c) = 0)"
    by (simp_all add: st_def)
  have zin: "\<forall>x \<in> input_plane L a img chan. snd st x = 0"
    using same zero by metis
  have S: "snd st' x = snd st x \<or> snd st' x = 0" for x
    unfolding st'_def by (rule conv2d_col_zero_or_same[OF iok g row zin])
  have same': "\<forall>x. snd st' x = h x \<or> snd st' x = 0"
    using S same by metis
  have keep: "snd st x = 0 \<Longrightarrow> snd st' x = 0" for x
    using S[of x] by auto
  from phase have "(fst st' = 8 * int (Suc g) \<and> 8 * int (Suc g) < result_width L \<and>
        (\<forall>c. 0 \<le> c \<and> c < 8 * int (Suc g) \<longrightarrow>
           snd st' (result_elem L result chan out_row c) = 0)) \<or>
        (\<forall>c. 0 \<le> c \<and> c < result_width L \<longrightarrow> snd st' (result_elem L result chan out_row c) = 0)"
  proof
    assume A: "fst st = 8 * int g \<and> 8 * int g < result_width L \<and>
        (\<forall>c. 0 \<le> c \<and> c < 8 * int g \<longrightarrow> snd st (result_elem L result chan out_row c) = 0)"
    then have oc: "0 \<le> fst st" "fst st < result_width L" "fst st mod 8 = 0"
      by simp_all
    note C = conv2d_col_stride1[OF s1 iok ook g row zin oc, of kernels kern result out_row,
        folded st'_def]
    have old: "0 \<le> c \<Longrightarrow> c < 8 * int g \<Longrightarrow> snd st' (result_elem L result chan out_row c) = 0"
      for c using A keep by simp
    show ?thesis
    proof (cases "result_width L - fst st \<le> 8")
      case True
      have "snd st' (result_elem L result chan out_row c) = 0"
        if "0 \<le> c \<and> c < result_width L" for c
      proof (cases "c < 8 * int g")
        case True
        with that old show ?thesis by simp
      next
        case False
        with that \<open>result_width L - fst st \<le> 8\<close> A
        have "fst st \<le> c \<and> c < fst st + min 8 (result_width L - fst st)" by simp
        with C(2) show ?thesis by blast
      qed
      then show ?thesis by blast
    next
      case False
      then have f: "fst st' = 8 * int (Suc g)" "8 * int (Suc g) < result_width L"
        using C(1) A by simp_all
      have "snd st' (result_elem L result chan out_row c) = 0"
        if "0 \<le> c \<and> c < 8 * int (Suc g)" for c
      proof (cases "c < 8 * int g")
        case True
        with that old show ?thesis by simp
      next
        case F: False
        with that False A
        have "fst st \<le> c \<and> c < fst st + min 8 (result_width L - fst st)" by simp
        with C(2) show ?thesis by blast
      qed
      with f show ?thesis by blast
    qed
  next
    assume "\<forall>c. 0 \<le> c \<and> c < result_width L \<longrightarrow>
        snd st (result_elem L result chan out_row c) = 0"
    with keep show ?thesis by blast
  qed
  with same' show ?case unfolding step by blast
qed

lemma conv2d_col_loop_stride1:
  assumes s1: "k_stride L = 1" and iok: "input_shape_ok L" and ook: "output_shape_ok L"
    and cov: "result_width L \<le> a_width L"
    and row: "0 \<le> in_row" "in_row < end_row L"
    and zero: "\<forall>x \<in> input_plane L a img chan. h x = 0"
  shows "0 \<le> c \<Longrightarrow> c < result_width L \<Longrightarrow>
    snd (fold (conv2d_col L a kernels img kern chan result in_row out_row)
           [0..<nat (end_col L)] (0, h)) (result_elem L result chan out_row c) = 0"
proof -
  assume c: "0 \<le> c" "c < result_width L"
  then have rw: "0 < result_width L" by simp
  from end_col_covers[OF iok s1 rw cov] have "result_width L \<le> 8 * int (nat (end_col L))"
    using rw by linarith
  with conv2d_col_fold_stride1[OF s1 iok ook row zero order_refl,
      of kernels kern result out_row] c
  show ?thesis by auto
qed

lemma conv2d_row_stride1:
  assumes s1: "k_stride L = 1" and iok: "input_shape_ok L" and ook: "output_shape_ok L"
    and cov: "result_width L \<le> a_width L"
  shows "0 \<le> in_row \<Longrightarrow> \<forall>x \<in> input_plane L a img chan. h x = 0 \<Longrightarrow>
         \<exists>h'. conv2d_row L a kernels img kern chan result in_row in_row h = Some h' \<and>
              (\<forall>x. h' x = h x \<or> h' x = 0) \<and>
              (\<forall>r c. in_row \<le> r \<and> r < end_row L \<and> 0 \<le> c \<and> c < result_width L \<longrightarrow>
                 h' (result_elem L result chan r c) = 0)"
proof (induction "nat (end_row L - in_row)" arbitrary: in_row h rule: less_induct)
  case less
  show ?case
  proof (cases "in_row < end_row L")
    case False
    then show ?thesis by (subst conv2d_row.simps) simp
  next
    case True
    define h1 where "h1 = snd (fold (conv2d_col L a kernels img kern chan result in_row in_row)
                                 [0..<nat (end_col L)] (0, h))"
    have same1: "\<forall>x. h1 x = h x \<or> h1 x = 0"
      unfolding h1_def
      using conv2d_col_fold_stride1[OF s1 iok ook less.prems(1) True less.prems(2) order_refl,
          of kernels kern result in_row]
      by blast
    have row1: "0 \<le> c \<Longrightarrow> c < result_width L \<Longrightarrow> h1 (result_elem L result chan in_row c) = 0"
      for c
      unfolding h1_def
      by (rule conv2d_col_loop_stride1[OF s1 iok ook cov less.prems(1) True less.prems(2)])
    have z1: "\<forall>x \<in> input_plane L a img chan. h1 x = 0"
      using same1 less.prems(2) by metis
    have dec: "nat (end_row L - (in_row + 1)) < nat (end_row L - in_row)"
      using True by linarith
    have pos: "0 \<le> in_row + 1" using less.prems(1) by simp
    from less.hyps[OF dec pos z1]
    obtain h' where h': "conv2d_row L a kernels img kern chan result (in_row + 1) (in_row + 1) h1
                           = Some h'"
      and same2: "\<forall>x. h' x = h1 x \<or> h' x = 0"
      and rows2: "\<forall>r c. in_row + 1 \<le> r \<and> r < end_row L \<and> 0 \<le> c \<and> c < result_width L \<longrightarrow>
                 h' (result_elem L result chan r c) = 0"
      by auto
    have run: "conv2d_row L a kernels img kern chan result in_row in_row h = Some h'"
      using True h' by (subst conv2d_row.simps) (simp add: h1_def s1)
    have same: "\<forall>x. h' x = h x \<or> h' x = 0" using same1 same2 by metis
    have "h' (result_elem L result chan r c) = 0"
      if "in_row \<le> r \<and> r < end_row L \<and> 0 \<le> c \<and> c < result_width L" for r c
    proof (cases "r = in_row")
      case True
      with that row1[of c] same2 show ?thesis by metis
    next
      case False
      with that rows2 show ?thesis by simp
    qed
    with run same show ?thesis by blast
  qed
qed

lemma zero_activations_stride1:
  assumes "k_stride L = 1" and "input_shape_ok L" and "output_shape_ok L"
    and "result_width L \<le> a_width L" and "result_height L \<le> end_row L"
    and "\<forall>x \<in> input_plane L a img chan. h x = 0"
  shows "\<exists>h'. convolution2d_smiv_1kernel_1channel_simd_fxp a kernels img kern chan L result h
                = Some h' \<and>
              (\<forall>r c. 0 \<le> r \<and> r < result_height L \<and> 0 \<le> c \<and> c < result_width L \<longrightarrow>
                 h' (result_elem L result chan r c) = 0)"
proof -
  from conv2d_row_stride1[OF assms(1-4) order_refl assms(6), of kernels kern result]
  obtain h' where "conv2d_row L a kernels img kern chan result 0 0 h = Some h'"
    and "\<forall>r c. 0 \<le> r \<and> r < end_row L \<and> 0 \<le> c \<and> c < result_width L \<longrightarrow>
                 h' (result_elem L result chan r c) = 0"
    by blast
  with assms(5) show ?thesis
    by (auto simp: convolution2d_smiv_1kernel_1channel_simd_fxp_def)
qed

text \<open>
  With stride 2 a column group yields at most four output pixels, \<^verbatim>\<open>out_col\<close> is 4 when
  the second group is committed, and its lanes go to columns 0 to 3 again. The following
  instance shows what that leaves in the result buffer.
\<close>

lemma stride2_row_once:
  "convolution2d_smiv_1kernel_1channel_simd_fxp 0 100 0 0 0 layer_stride2 200 h =
     Some (snd (fold (conv2d_col layer_stride2 0 100 0 0 0 200 0 0) [0..<2] (0, h)))"
proof -
  have er: "end_row layer_stride2 = 1" and st: "k_stride layer_stride2 = 2"
    by (simp_all add: end_row_def k_stride_def a_height_def k_width_def layer_stride2_def)
  have ec: "nat (end_col layer_stride2) = 2" by code_simp
  show ?thesis
    unfolding convolution2d_smiv_1kernel_1channel_simd_fxp_def
    by (subst conv2d_row.simps, simp add: er st ec, subst conv2d_row.simps, simp add: er)
qed

text \<open>
  Claim C5. The claim asks that all-zero activations leave all zeros in the declared
  output shape. Here the code is run on a stride-2 layer with a \<open>3 \<times> 16\<close> input, a
  \<open>3 \<times> 3\<close> kernel and a declared output of \<open>1 \<times> 7\<close>; the descriptor is well formed, the
  48 activations are zero, and the result buffer holds 5 from earlier work. The call
  returns with zeros in output columns 0 to 3 only: columns 4, 5 and 6 still hold 5. The
  second column group commits its sums at lane 0 of the vector again, instead of at
  lane \<^verbatim>\<open>out_col % VECTOR_SIZE\<close>, so the columns from 4 on are never written.
\<close>

theorem zero_activations_stale_output:
  "k_stride layer_stride2 = 2 \<and> input_shape_ok layer_stride2 \<and> output_shape_ok layer_stride2 \<and>
   map stale_heap (map int [0..<48]) = replicate 48 0 \<and>
   (\<exists>h'. convolution2d_smiv_1kernel_1channel_simd_fxp 0 100 0 0 0 layer_stride2 200 stale_heap
            = Some h' \<and>
          map h' [200, 201, 202, 203, 204, 205, 206] = [0, 0, 0, 0, 5, 5, 5])"
proof (intro conjI exI)
  show "k_stride layer_stride2 = 2" by (simp add: k_stride_def layer_stride2_def)
  show "input_shape_ok layer_stride2" by code_simp
  show "output_shape_ok layer_stride2" by code_simp
  show "map stale_heap (map int [0..<48]) = replicate 48 0" by code_simp
  show "convolution2d_smiv_1kernel_1channel_simd_fxp 0 100 0 0 0 layer_stride2 200 stale_heap
      = Some (snd (fold (conv2d_col layer_stride2 0 100 0 0 0 200 0 0) [0..<2] (0, stale_heap)))"
    by (rule stride2_row_once)
  show "map (snd (fold (conv2d_col layer_stride2 0 100 0 0 0 200 0 0) [0..<2] (0, stale_heap)))
      [200, 201, 202, 203, 204, 205, 206] = [0, 0, 0, 0, 5, 5, 5]"
    by code_simp
qed

end
